theory Spec2Isabelle
  imports Main "HOL-Library.Code_Target_Numeral"
begin

section \<open>Wire codec\<close>

text \<open>
  Python integers are unbounded and are modelled as \<open>int\<close>. A byte is a natural number
  below 256. \<open>struct.pack\<close> raises \<open>struct.error\<close> when its argument does not fit
  the format; \<open>recv_exact\<close> raises \<open>ConnectionError\<close> at end of stream.
\<close>

type_synonym byte = nat

datatype error =
    StructError
  | ConnectionError
  | RuntimeError string
  | IndexError
  | TypeError
  | SystemExit string

fun be_bytes :: "nat \<Rightarrow> nat \<Rightarrow> byte list" where
  "be_bytes 0 v = []"
| "be_bytes (Suc n) v = be_bytes n (v div 256) @ [v mod 256]"

definition be_value :: "byte list \<Rightarrow> nat" where
  "be_value bs = foldl (\<lambda>acc b. acc * 256 + b) 0 bs"

definition pack_u8 :: "int \<Rightarrow> error + byte list" where
  "pack_u8 x = (if 0 \<le> x \<and> x \<le> 255 then Inr [nat x] else Inl StructError)"

definition pack_u32 :: "int \<Rightarrow> error + byte list" where
  "pack_u32 x = Inr (be_bytes 4 (nat (x mod 4294967296)))"

definition pack_i64 :: "int \<Rightarrow> error + byte list" where
  "pack_i64 x =
     (if - 9223372036854775808 \<le> x \<and> x \<le> 9223372036854775807
      then Inr (be_bytes 8 (nat (x mod 18446744073709551616)))
      else Inl StructError)"

definition unpack_u8 :: "byte list \<Rightarrow> int" where
  "unpack_u8 bs = int (be_value bs)"

definition unpack_u32 :: "byte list \<Rightarrow> int" where
  "unpack_u32 bs = int (be_value bs)"

definition unpack_i64 :: "byte list \<Rightarrow> int" where
  "unpack_i64 bs =
     (let n = int (be_value bs)
      in if n \<ge> 9223372036854775808 then n - 18446744073709551616 else n)"

section \<open>Processes, sockets and exceptions\<close>

text \<open>
  Each process (party, dealer, client) is a state transformer that may raise. A socket is
  named by its channel. The environment of a process is \<open>inbound\<close>: for each channel, the
  bytes the remote end delivers on it before closing. Everything a process does to a
  socket is appended to \<open>trace\<close>. Socket writes and connects are taken to succeed; the
  failures modelled are those the program raises itself.
\<close>

datatype chan =
    User
  | Dealer
  | PeerOut int
  | PeerIn int
  | Party nat
  | Conn nat

datatype event =
    Connect chan
  | Accept chan
  | Send chan "byte list"
  | Shutdown chan
  | Close chan

record world =
  trace :: "event list"
  inbound :: "chan \<Rightarrow> byte list"

type_synonym ('s, 'a) io = "'s \<Rightarrow> (error + 'a) \<times> 's"

definition returnE :: "'a \<Rightarrow> ('s, 'a) io" where
  "returnE x = (\<lambda>s. (Inr x, s))"

definition raise :: "error \<Rightarrow> ('s, 'a) io" where
  "raise e = (\<lambda>s. (Inl e, s))"

definition bindE :: "('s, 'a) io \<Rightarrow> ('a \<Rightarrow> ('s, 'b) io) \<Rightarrow> ('s, 'b) io" where
  "bindE m f = (\<lambda>s. case m s of (Inl e, s') \<Rightarrow> (Inl e, s') | (Inr x, s') \<Rightarrow> f x s')"

definition thenE :: "('s, 'a) io \<Rightarrow> ('s, 'b) io \<Rightarrow> ('s, 'b) io" where
  "thenE m k = bindE m (\<lambda>_. k)"

definition finallyE :: "('s, 'a) io \<Rightarrow> ('s, unit) io \<Rightarrow> ('s, 'a) io" where
  "finallyE m c =
     (\<lambda>s. case m s of (r, s') \<Rightarrow>
        (case c s' of (Inl e, s'') \<Rightarrow> (Inl e, s'') | (Inr _, s'') \<Rightarrow> (r, s'')))"

definition liftE :: "error + 'a \<Rightarrow> ('s, 'a) io" where
  "liftE r = (case r of Inl e \<Rightarrow> raise e | Inr x \<Rightarrow> returnE x)"

definition log_event :: "event \<Rightarrow> ('a world_scheme, unit) io" where
  "log_event ev = (\<lambda>w. (Inr (), w\<lparr>trace := trace w @ [ev]\<rparr>))"

definition connect :: "chan \<Rightarrow> ('a world_scheme, unit) io" where
  "connect ch = log_event (Connect ch)"

definition accept :: "chan \<Rightarrow> ('a world_scheme, unit) io" where
  "accept ch = log_event (Accept ch)"

definition close :: "chan \<Rightarrow> ('a world_scheme, unit) io" where
  "close ch = log_event (Close ch)"

definition sendall :: "chan \<Rightarrow> error + byte list \<Rightarrow> ('a world_scheme, unit) io" where
  "sendall ch packed = bindE (liftE packed) (\<lambda>bs. log_event (Send ch bs))"

text \<open>\<open>sock.recv(k)\<close>: at most \<open>k\<close> of the bytes still to come, empty at end of stream.\<close>

definition sock_recv :: "chan \<Rightarrow> nat \<Rightarrow> ('a world_scheme, byte list) io" where
  "sock_recv ch k =
     (\<lambda>w. (Inr (take k (inbound w ch)),
            w\<lparr>inbound := (inbound w)(ch := drop k (inbound w ch))\<rparr>))"

function recv_exact_loop :: "chan \<Rightarrow> nat \<Rightarrow> byte list \<Rightarrow> ('a world_scheme, byte list) io" where
  "recv_exact_loop ch n b =
     (if length b < n
      then bindE (sock_recv ch (n - length b)) (\<lambda>chunk.
             if chunk = [] then raise ConnectionError
             else recv_exact_loop ch n (b @ chunk))
      else returnE b)"
  by pat_completeness auto
termination
proof (relation "measure (\<lambda>(ch, n, b). n - length b)")
  show "wf (measure (\<lambda>(ch, n, b). n - length b))" by simp
next
  fix ch :: chan and n :: nat and b x :: "byte list"
  assume "length b < n" "x \<noteq> []"
  then have "0 < length x" by simp
  with \<open>length b < n\<close> have "n - (length b + length x) < n - length b" by arith
  then show "((ch, n, b @ x), (ch, n, b)) \<in> measure (\<lambda>(ch, n, b). n - length b)" by simp
qed

declare recv_exact_loop.simps [simp del]

definition recv_exact :: "chan \<Rightarrow> nat \<Rightarrow> ('a world_scheme, byte list) io" where
  "recv_exact ch n = recv_exact_loop ch n []"

definition read_u8 :: "chan \<Rightarrow> ('a world_scheme, int) io" where
  "read_u8 ch = bindE (recv_exact ch 1) (\<lambda>bs. returnE (unpack_u8 bs))"

definition read_u32 :: "chan \<Rightarrow> ('a world_scheme, int) io" where
  "read_u32 ch = bindE (recv_exact ch 4) (\<lambda>bs. returnE (unpack_u32 bs))"

definition read_i64 :: "chan \<Rightarrow> ('a world_scheme, int) io" where
  "read_i64 ch = bindE (recv_exact ch 8) (\<lambda>bs. returnE (unpack_i64 bs))"

text \<open>\<open>for v in vec: s.sendall(pack_i64(v))\<close>\<close>

fun send_i64s :: "chan \<Rightarrow> int list \<Rightarrow> ('a world_scheme, unit) io" where
  "send_i64s ch [] = returnE ()"
| "send_i64s ch (v # vs) = bindE (sendall ch (pack_i64 v)) (\<lambda>_. send_i64s ch vs)"

text \<open>\<open>[read_i64(s) for _ in range(n)]\<close>\<close>

fun read_i64s :: "chan \<Rightarrow> nat \<Rightarrow> ('a world_scheme, int list) io" where
  "read_i64s ch 0 = returnE []"
| "read_i64s ch (Suc n) =
     bindE (read_i64 ch) (\<lambda>x. bindE (read_i64s ch n) (\<lambda>xs. returnE (x # xs)))"

section \<open>Party (party_client.py)\<close>

definition OP_WRITE_VEC :: int where "OP_WRITE_VEC = 64"
definition OP_READ_SECURE :: int where "OP_READ_SECURE = 65"
definition OP_REQUEST :: int where "OP_REQUEST = 49"
definition OP_RESPONSE :: int where "OP_RESPONSE = 51"

datatype role = RoleA | RoleB

definition dot :: "int list \<Rightarrow> int list \<Rightarrow> int" where
  "dot a b = sum_list (map (\<lambda>(x, y). x * y) (zip a b))"

text \<open>\<open>xs[i]\<close> for an index produced by \<open>range\<close>: IndexError past the end.\<close>

definition getitem :: "int list \<Rightarrow> nat \<Rightarrow> error + int" where
  "getitem xs i = (if i < length xs then Inr (xs ! i) else Inl IndexError)"

definition bindS :: "error + 'a \<Rightarrow> ('a \<Rightarrow> error + 'b) \<Rightarrow> error + 'b" where
  "bindS r f = (case r of Inl e \<Rightarrow> Inl e | Inr x \<Rightarrow> f x)"

text \<open>\<open>[g(i) for i in ns]\<close>, stopping at the first exception.\<close>

fun comprehension :: "nat list \<Rightarrow> (nat \<Rightarrow> error + int) \<Rightarrow> error + int list" where
  "comprehension [] g = Inr []"
| "comprehension (i # ns) g =
     bindS (g i) (\<lambda>x. bindS (comprehension ns g) (\<lambda>xs. Inr (x # xs)))"

definition send_two_vecs ::
  "int \<Rightarrow> int \<Rightarrow> int list \<Rightarrow> int list \<Rightarrow> ('a world_scheme, unit) io" where
  "send_two_vecs sid tag vec_u_part vec_v_part =
     bindE (connect (PeerOut tag)) (\<lambda>_.
     bindE (sendall (PeerOut tag) (pack_i64 sid)) (\<lambda>_.
     bindE (sendall (PeerOut tag) (pack_u8 tag)) (\<lambda>_.
     bindE (sendall (PeerOut tag) (pack_u32 (int (length vec_u_part)))) (\<lambda>_.
     bindE (send_i64s (PeerOut tag) vec_u_part) (\<lambda>_.
     bindE (sendall (PeerOut tag) (pack_u32 (int (length vec_v_part)))) (\<lambda>_.
     bindE (send_i64s (PeerOut tag) vec_v_part) (\<lambda>_.
     close (PeerOut tag))))))))"

definition recv_two_vecs ::
  "int \<Rightarrow> int \<Rightarrow> int \<Rightarrow> ('a world_scheme, int list \<times> int list) io" where
  "recv_two_vecs expect_sid expect_tag expect_dim =
     bindE (accept (PeerIn expect_tag)) (\<lambda>_.
     bindE (read_i64 (PeerIn expect_tag)) (\<lambda>sid.
     bindE (read_u8 (PeerIn expect_tag)) (\<lambda>tag.
     bindE (read_u32 (PeerIn expect_tag)) (\<lambda>dim1.
     if sid \<noteq> expect_sid \<or> tag \<noteq> expect_tag \<or> dim1 \<noteq> expect_dim
     then bindE (close (PeerIn expect_tag)) (\<lambda>_.
          raise (RuntimeError ''peer residual header mismatch (u_part)''))
     else
     bindE (read_i64s (PeerIn expect_tag) (nat dim1)) (\<lambda>u_part.
     bindE (read_u32 (PeerIn expect_tag)) (\<lambda>dim2.
     if dim2 \<noteq> expect_dim
     then bindE (close (PeerIn expect_tag)) (\<lambda>_.
          raise (RuntimeError ''peer residual header mismatch (v_part)''))
     else
     bindE (read_i64s (PeerIn expect_tag) (nat dim2)) (\<lambda>v_part.
     bindE (close (PeerIn expect_tag)) (\<lambda>_.
     returnE (u_part, v_part)))))))))"

definition dta_cross ::
  "role \<Rightarrow> int \<Rightarrow> int \<Rightarrow> bool \<Rightarrow> int list \<Rightarrow> int list \<Rightarrow> int list \<Rightarrow> int
     \<Rightarrow> ('a world_scheme, int) io" where
  "dta_cross role sid tag i_am_X_side my_input a_i b_i c_i =
     (let dim = length my_input in
      bindE
        (if i_am_X_side then
           bindE (liftE (comprehension [0..<dim] (\<lambda>i.
                    bindS (getitem my_input i) (\<lambda>x. bindS (getitem a_i i) (\<lambda>a. Inr (x - a))))))
             (\<lambda>u_part_me.
           bindE (liftE (comprehension [0..<dim] (\<lambda>i.
                    bindS (getitem b_i i) (\<lambda>b. Inr (- b)))))
             (\<lambda>v_part_me.
           bindE (send_two_vecs sid tag u_part_me v_part_me) (\<lambda>_.
           bindE (recv_two_vecs sid tag (int dim)) (\<lambda>(u_part_pe, v_part_pe).
           returnE (u_part_me, v_part_me, u_part_pe, v_part_pe)))))
         else
           bindE (liftE (comprehension [0..<dim] (\<lambda>i.
                    bindS (getitem a_i i) (\<lambda>a. Inr (- a)))))
             (\<lambda>u_part_me.
           bindE (liftE (comprehension [0..<dim] (\<lambda>i.
                    bindS (getitem my_input i) (\<lambda>y. bindS (getitem b_i i) (\<lambda>b. Inr (y - b))))))
             (\<lambda>v_part_me.
           bindE (recv_two_vecs sid tag (int dim)) (\<lambda>(u_part_pe, v_part_pe).
           bindE (send_two_vecs sid tag u_part_me v_part_me) (\<lambda>_.
           returnE (u_part_me, v_part_me, u_part_pe, v_part_pe))))))
        (\<lambda>(u_part_me, v_part_me, u_part_pe, v_part_pe).
      bindE (liftE (comprehension [0..<dim] (\<lambda>i.
               bindS (getitem u_part_me i) (\<lambda>p. bindS (getitem u_part_pe i) (\<lambda>q. Inr (p + q))))))
        (\<lambda>u.
      bindE (liftE (comprehension [0..<dim] (\<lambda>i.
               bindS (getitem v_part_me i) (\<lambda>p. bindS (getitem v_part_pe i) (\<lambda>q. Inr (p + q))))))
        (\<lambda>v.
      if role = RoleA
      then returnE (dot u b_i + dot a_i v + c_i)
      else returnE (dot u b_i + dot a_i v + dot u v + c_i)))))"

definition fetch_share ::
  "int \<Rightarrow> ('a world_scheme, int \<times> int list \<times> int list \<times> int) io" where
  "fetch_share dim =
     bindE (connect Dealer) (\<lambda>_.
     bindE (sendall Dealer (pack_u8 OP_REQUEST)) (\<lambda>_.
     bindE (sendall Dealer (pack_u32 dim)) (\<lambda>_.
     bindE (read_u8 Dealer) (\<lambda>op.
     if op \<noteq> OP_RESPONSE then raise (RuntimeError ''share server: bad op'') else
     bindE (read_u32 Dealer) (\<lambda>rdim.
     if rdim \<noteq> dim then raise (RuntimeError ''share server: dim mismatch'') else
     bindE (read_i64 Dealer) (\<lambda>sid.
     bindE (read_i64s Dealer (nat dim)) (\<lambda>a_i.
     bindE (read_i64s Dealer (nat dim)) (\<lambda>b_i.
     bindE (read_i64 Dealer) (\<lambda>c_i.
     bindE (close Dealer) (\<lambda>_.
     returnE (sid, a_i, b_i, c_i)))))))))))"

record party = world +
  A_share :: "int list"

text \<open>\<open>for i in range(rows): A_share[i] += vec[i]\<close>\<close>

fun accumulate :: "nat list \<Rightarrow> int list \<Rightarrow> (party, unit) io" where
  "accumulate [] vec = returnE ()"
| "accumulate (i # ns) vec =
     bindE (\<lambda>w. if i < length (A_share w) \<and> i < length vec
                 then (Inr (), w\<lparr>A_share := (A_share w)[i := A_share w ! i + vec ! i]\<rparr>)
                 else (Inl IndexError, w))
       (\<lambda>_. accumulate ns vec)"

definition get_A_share :: "(party, int list) io" where
  "get_A_share = (\<lambda>w. (Inr (A_share w), w))"

text \<open>The \<open>OP_WRITE_VEC\<close> branch of \<open>serve\<close>.\<close>

definition serve_write :: "int \<Rightarrow> (party, unit) io" where
  "serve_write rows =
     bindE (read_u32 User) (\<lambda>dim.
     if dim \<noteq> rows then raise (RuntimeError ''WRITE dim != rows'') else
     bindE (read_i64s User (nat dim)) (\<lambda>vec.
     bindE (accumulate [0..<nat rows] vec) (\<lambda>_.
     sendall User (Inr [79, 75]))))"

text \<open>The \<open>OP_READ_SECURE\<close> branch of \<open>serve\<close>.\<close>

definition serve_read :: "role \<Rightarrow> int \<Rightarrow> (party, unit) io" where
  "serve_read role rows =
     bindE (read_u32 User) (\<lambda>dim.
     if dim \<noteq> rows then raise (RuntimeError ''READ dim != rows'') else
     bindE (read_i64s User (nat dim)) (\<lambda>e_share.
     bindE (fetch_share dim) (\<lambda>(sid, a_i, b_i, c_i).
     bindE get_A_share (\<lambda>mem.
     bindE (dta_cross role sid 1 (role = RoleA)
              (if role = RoleA then mem else e_share) a_i b_i c_i) (\<lambda>z01.
     bindE get_A_share (\<lambda>mem.
     bindE (dta_cross role sid 16 (role = RoleB)
              (if role = RoleB then mem else e_share) a_i b_i c_i) (\<lambda>z10.
     bindE get_A_share (\<lambda>mem.
     (let self_term = dot mem e_share;
          my_share = self_term + z01 + z10
      in sendall User (pack_i64 my_share))))))))))"

text \<open>The body of the \<open>try\<close> block of \<open>serve\<close>, for one accepted user connection.\<close>

definition serve_try :: "role \<Rightarrow> int \<Rightarrow> (party, unit) io" where
  "serve_try role rows =
     bindE (read_u8 User) (\<lambda>op.
     if op = OP_WRITE_VEC then serve_write rows
     else if op = OP_READ_SECURE then serve_read role rows
     else returnE ())"

text \<open>One pass of the loop body after \<open>accept\<close>: the \<open>try\<close> block and its \<open>finally\<close>.\<close>

definition serve_conn :: "role \<Rightarrow> int \<Rightarrow> (party, unit) io" where
  "serve_conn role rows = finallyE (serve_try role rows) (close User)"

text \<open>
  The \<open>while True\<close> loop of \<open>serve\<close>, run over the user connections that arrive. Each
  connection comes with the environment of its handling (what the user, the dealer and
  the peer deliver meanwhile). An exception passes the \<open>finally\<close> clause and leaves the
  loop: \<open>serve\<close> ends and the connections still to come are not accepted.
\<close>

fun serve_loop :: "role \<Rightarrow> int \<Rightarrow> (chan \<Rightarrow> byte list) list \<Rightarrow> (party, unit) io" where
  "serve_loop role rows [] = returnE ()"
| "serve_loop role rows (env # envs) =
     bindE (\<lambda>w. (Inr (), w\<lparr>inbound := env\<rparr>)) (\<lambda>_.
     bindE (accept User) (\<lambda>_.
     bindE (serve_conn role rows) (\<lambda>_.
     serve_loop role rows envs)))"

definition serve :: "role \<Rightarrow> int \<Rightarrow> (chan \<Rightarrow> byte list) list \<Rightarrow> (error + unit) \<times> party" where
  "serve role rows envs =
     serve_loop role rows envs
       \<lparr>trace = [], inbound = (\<lambda>_. []), A_share = replicate (nat rows) 0\<rparr>"

section \<open>Randomness\<close>

text \<open>
  The \<open>random\<close> module is a tape of raw draws, consumed in order. \<open>randint(lo, hi)\<close>
  returns a value in \<open>[lo, hi]\<close> and \<open>getrandbits(k)\<close> a value below \<open>2 ^ k\<close>, whatever
  the tape holds.
\<close>

record rand_world = world +
  tape :: "nat \<Rightarrow> nat"
  drawn :: nat

definition randint :: "int \<Rightarrow> int \<Rightarrow> ('a rand_world_scheme, int) io" where
  "randint lo hi =
     (\<lambda>w. (Inr (lo + int (tape w (drawn w) mod nat (hi - lo + 1))),
            w\<lparr>drawn := drawn w + 1\<rparr>))"

definition getrandbits :: "nat \<Rightarrow> ('a rand_world_scheme, int) io" where
  "getrandbits k =
     (\<lambda>w. (Inr (int (tape w (drawn w) mod 2 ^ k)), w\<lparr>drawn := drawn w + 1\<rparr>))"

definition rand_elem :: "('a rand_world_scheme, int) io" where
  "rand_elem = randint 1 1024"

text \<open>\<open>[rand_elem() for _ in range(n)]\<close>\<close>

fun rand_list :: "nat \<Rightarrow> ('a rand_world_scheme, int list) io" where
  "rand_list 0 = returnE []"
| "rand_list (Suc n) =
     bindE rand_elem (\<lambda>x. bindE (rand_list n) (\<lambda>xs. returnE (x # xs)))"

definition rand_vec :: "int \<Rightarrow> ('a rand_world_scheme, int list) io" where
  "rand_vec n = rand_list (nat n)"

section \<open>Client coordinator (coordinator.py)\<close>

text \<open>\<open>xs[i] = v\<close> for an arbitrary integer index: negative indices count from the end.\<close>

definition setitem :: "int list \<Rightarrow> int \<Rightarrow> int \<Rightarrow> error + int list" where
  "setitem xs i v =
     (let n = int (length xs); j = (if i < 0 then n + i else i)
      in if 0 \<le> j \<and> j < n then Inr (xs[nat j := v]) else Inl IndexError)"

text \<open>\<open>for i in ns: e[i] -= f[i]\<close>\<close>

fun subtract_loop :: "nat list \<Rightarrow> int list \<Rightarrow> int list \<Rightarrow> error + int list" where
  "subtract_loop [] e f = Inr e"
| "subtract_loop (i # ns) e f =
     (if i < length e \<and> i < length f
      then subtract_loop ns (e[i := e ! i - f ! i]) f
      else Inl IndexError)"

definition make_standard_basis_share ::
  "int \<Rightarrow> int \<Rightarrow> int \<Rightarrow> ('a rand_world_scheme, int list \<times> int list) io" where
  "make_standard_basis_share dim idx val =
     bindE (liftE (setitem (replicate (nat dim) 0) idx val)) (\<lambda>e.
     bindE (rand_vec dim) (\<lambda>f.
     bindE (liftE (subtract_loop [0..<nat dim] e f)) (\<lambda>e.
     returnE (e, f))))"

definition write_vec :: "nat \<Rightarrow> int list \<Rightarrow> ('a world_scheme, unit) io" where
  "write_vec hp vec =
     bindE (connect (Party hp)) (\<lambda>_.
     bindE (sendall (Party hp) (pack_u8 OP_WRITE_VEC)) (\<lambda>_.
     bindE (sendall (Party hp) (pack_u32 (int (length vec)))) (\<lambda>_.
     bindE (send_i64s (Party hp) vec) (\<lambda>_.
     bindE (recv_exact (Party hp) 2) (\<lambda>_.
     close (Party hp))))))"

definition read_share :: "nat \<Rightarrow> int list \<Rightarrow> ('a world_scheme, int) io" where
  "read_share hp vec =
     bindE (connect (Party hp)) (\<lambda>_.
     bindE (sendall (Party hp) (pack_u8 OP_READ_SECURE)) (\<lambda>_.
     bindE (sendall (Party hp) (pack_u32 (int (length vec)))) (\<lambda>_.
     bindE (send_i64s (Party hp) vec) (\<lambda>_.
     bindE (read_i64 (Party hp)) (\<lambda>share.
     bindE (close (Party hp)) (\<lambda>_.
     returnE share))))))"

text \<open>
  A thread started and joined: an exception inside it ends the thread only, and the
  thread then leaves no result. The two threads of a request use different sockets; they
  are run one after the other.
\<close>

definition thread :: "('s, 'a) io \<Rightarrow> ('s, 'a option) io" where
  "thread m = (\<lambda>w. case m w of (Inl e, w') \<Rightarrow> (Inr None, w') | (Inr x, w') \<Rightarrow> (Inr (Some x), w'))"

datatype op = OpWrite | OpRead

text \<open>\<open>main\<close> of the coordinator; the result is the value printed by a read.\<close>

definition coordinator_main ::
  "op \<Rightarrow> int \<Rightarrow> int \<Rightarrow> int \<Rightarrow> ('a rand_world_scheme, int option) io" where
  "coordinator_main oper dim idx val =
     (if idx \<ge> dim then raise (SystemExit ''idx < dim required'')
      else if oper = OpWrite then
        bindE (make_standard_basis_share dim idx val) (\<lambda>(e0, e1).
        bindE (thread (write_vec 0 e0)) (\<lambda>_.
        bindE (thread (write_vec 1 e1)) (\<lambda>_.
        returnE None)))
      else
        bindE (make_standard_basis_share dim idx 1) (\<lambda>(e0, e1).
        bindE (thread (read_share 0 e0)) (\<lambda>out0.
        bindE (thread (read_share 1 e1)) (\<lambda>out1.
        (case (out0, out1) of
           (Some x0, Some x1) \<Rightarrow> returnE (Some (x0 + x1))
         | _ \<Rightarrow> raise TypeError)))))"

section \<open>Dealer (share_server.py)\<close>

text \<open>
  \<open>waiting\<close> is the \<open>defaultdict(deque)\<close> from dimension to the connections waiting for
  a peer. The statements of the critical region are separate state transformers.
\<close>

record dealer = rand_world +
  waiting :: "int \<Rightarrow> nat list option"

definition waiting_getitem :: "int \<Rightarrow> (dealer, nat list) io" where
  "waiting_getitem dim =
     (\<lambda>w. case waiting w dim of
             None \<Rightarrow> (Inr [], w\<lparr>waiting := (waiting w)(dim \<mapsto> [])\<rparr>)
           | Some dq \<Rightarrow> (Inr dq, w))"

text \<open>\<open>dq.popleft()\<close> on the deque stored under \<open>dim\<close>: the element, and what is left.\<close>

definition dq_popleft :: "int \<Rightarrow> (dealer, nat \<times> nat list) io" where
  "dq_popleft dim =
     (\<lambda>w. case waiting w dim of
             Some (c # dq) \<Rightarrow> (Inr (c, dq), w\<lparr>waiting := (waiting w)(dim \<mapsto> dq)\<rparr>)
           | _ \<Rightarrow> (Inl IndexError, w))"

definition dq_append :: "int \<Rightarrow> nat \<Rightarrow> (dealer, unit) io" where
  "dq_append dim c =
     (\<lambda>w. case waiting w dim of
             Some dq \<Rightarrow> (Inr (), w\<lparr>waiting := (waiting w)(dim \<mapsto> dq @ [c])\<rparr>)
           | None \<Rightarrow> (Inl IndexError, w))"

definition waiting_pop :: "int \<Rightarrow> (dealer, unit) io" where
  "waiting_pop dim = (\<lambda>w. (Inr (), w\<lparr>waiting := (waiting w)(dim := None)\<rparr>))"

text \<open>
  The block under \<open>waiting_mu\<close>. \<open>Some peer\<close>: a waiter was taken out; \<open>None\<close>: the
  connection was queued and \<open>handle_one\<close> returns.
\<close>

definition critical_region :: "int \<Rightarrow> nat \<Rightarrow> (dealer, nat option) io" where
  "critical_region dim conn =
     bindE (waiting_getitem dim) (\<lambda>dq.
     if dq \<noteq> [] then
       bindE (dq_popleft dim) (\<lambda>(peer, dq).
       bindE (if dq = [] then waiting_pop dim else returnE ()) (\<lambda>_.
       returnE (Some peer)))
     else
       bindE (dq_append dim conn) (\<lambda>_. returnE None))"

definition send_share ::
  "nat \<Rightarrow> int \<Rightarrow> int \<Rightarrow> int list \<Rightarrow> int list \<Rightarrow> int \<Rightarrow> ('a world_scheme, unit) io" where
  "send_share s dim sid a_i b_i c_i =
     bindE (sendall (Conn s) (pack_u8 OP_RESPONSE)) (\<lambda>_.
     bindE (sendall (Conn s) (pack_u32 dim)) (\<lambda>_.
     bindE (sendall (Conn s) (pack_i64 sid)) (\<lambda>_.
     bindE (send_i64s (Conn s) a_i) (\<lambda>_.
     bindE (send_i64s (Conn s) b_i) (\<lambda>_.
     sendall (Conn s) (pack_i64 c_i))))))"

definition catchE :: "('s, 'a) io \<Rightarrow> (error \<Rightarrow> ('s, 'a) io) \<Rightarrow> ('s, 'a) io" where
  "catchE m h = (\<lambda>s. case m s of (Inl e, s') \<Rightarrow> h e s' | (Inr x, s') \<Rightarrow> (Inr x, s'))"

definition shutdown_close :: "nat \<Rightarrow> ('a world_scheme, unit) io" where
  "shutdown_close s = bindE (log_event (Shutdown (Conn s))) (\<lambda>_. close (Conn s))"

definition handle_one :: "nat \<Rightarrow> (dealer, unit) io" where
  "handle_one conn =
     catchE
       (bindE (read_u8 (Conn conn)) (\<lambda>op.
        if op \<noteq> OP_REQUEST then close (Conn conn) else
        bindE (read_u32 (Conn conn)) (\<lambda>dim.
        if dim = 0 then close (Conn conn) else
        bindE (critical_region dim conn) (\<lambda>found.
        case found of
          None \<Rightarrow> returnE ()
        | Some peer \<Rightarrow>
            bindE (rand_vec dim) (\<lambda>a0.
            bindE (rand_vec dim) (\<lambda>a1.
            bindE (rand_vec dim) (\<lambda>b0.
            bindE (rand_vec dim) (\<lambda>b1.
            (let a = map (\<lambda>(x, y). x + y) (zip a0 a1);
                 b = map (\<lambda>(x, y). x + y) (zip b0 b1);
                 c = dot a b
             in
            bindE rand_elem (\<lambda>c0.
            (let c1 = c - c0 in
            bindE (getrandbits 63) (\<lambda>sid.
            bindE (finallyE (send_share peer dim sid a0 b0 c0) (shutdown_close peer)) (\<lambda>_.
            finallyE (send_share conn dim sid a1 b1 c1) (shutdown_close conn))))))))))))))
       (\<lambda>_. close (Conn conn))"

text \<open>
  \<open>main\<close> accepts connections for ever and hands each to \<open>handle_one\<close>. The table is
  touched only under the mutex, so the handlers are run in the order in which they enter
  the critical region.
\<close>

fun dealer_loop :: "nat list \<Rightarrow> (dealer, unit) io" where
  "dealer_loop [] = returnE ()"
| "dealer_loop (c # cs) =
     bindE (accept (Conn c)) (\<lambda>_. bindE (handle_one c) (\<lambda>_. dealer_loop cs))"

definition dealer_init :: "(chan \<Rightarrow> byte list) \<Rightarrow> (nat \<Rightarrow> nat) \<Rightarrow> dealer" where
  "dealer_init env tp =
     \<lparr>trace = [], inbound = env, tape = tp, drawn = 0, waiting = Map.empty\<rparr>"

section \<open>Vocabulary for the statements\<close>

text \<open>
  The encodings that \<open>struct.pack\<close> produces, the range of the \<open>q\<close> format, and the bytes
  a trace shows as sent on a channel.
\<close>

definition in_i64 :: "int \<Rightarrow> bool" where
  "in_i64 x \<longleftrightarrow> - 9223372036854775808 \<le> x \<and> x \<le> 9223372036854775807"

definition enc_i64 :: "int \<Rightarrow> byte list" where
  "enc_i64 x = be_bytes 8 (nat (x mod 18446744073709551616))"

definition enc_u32 :: "int \<Rightarrow> byte list" where
  "enc_u32 x = be_bytes 4 (nat (x mod 4294967296))"

definition enc_u8 :: "int \<Rightarrow> byte list" where
  "enc_u8 x = [nat x]"

definition enc_i64s :: "int list \<Rightarrow> byte list" where
  "enc_i64s xs = concat (map enc_i64 xs)"

fun sent :: "chan \<Rightarrow> event list \<Rightarrow> byte list" where
  "sent ch [] = []"
| "sent ch (Send c bs # es) = (if c = ch then bs @ sent ch es else sent ch es)"
| "sent ch (_ # es) = sent ch es"

text \<open>The frames of the wire protocol, as the senders lay them out.\<close>

definition request_bytes :: "int \<Rightarrow> int list \<Rightarrow> byte list" where
  "request_bytes opc vec = enc_u8 opc @ enc_u32 (int (length vec)) @ enc_i64s vec"

definition share_bytes :: "int \<Rightarrow> int \<Rightarrow> int list \<Rightarrow> int list \<Rightarrow> int \<Rightarrow> byte list" where
  "share_bytes dim sid a_i b_i c_i =
     enc_u8 OP_RESPONSE @ enc_u32 dim @ enc_i64 sid @ enc_i64s a_i @ enc_i64s b_i @ enc_i64 c_i"

definition residual_bytes :: "int \<Rightarrow> int \<Rightarrow> int list \<Rightarrow> int list \<Rightarrow> byte list" where
  "residual_bytes sid tag u_part v_part =
     enc_i64 sid @ enc_u8 tag @ enc_u32 (int (length u_part)) @ enc_i64s u_part
       @ enc_u32 (int (length v_part)) @ enc_i64s v_part"

text \<open>
  A READ at index 0 of a one-cell memory holding 7 (shares 4 and 3), with the client's
  selector shares \<open>[-4]\<close> and \<open>[5]\<close>, the triple shares \<open>(2, 4, 6)\<close> and \<open>(3, 1, 19)\<close>
  under session id 9, and the residual frames the two parties send each other.
\<close>

definition example_env_A :: "chan \<Rightarrow> byte list" where
  "example_env_A =
     (\<lambda>_. [])(User := request_bytes OP_READ_SECURE [- 4],
              Dealer := share_bytes 1 9 [2] [4] 6,
              PeerIn 1 := residual_bytes 9 1 [- 3] [4],
              PeerIn 16 := residual_bytes 9 16 [0] [- 1])"

definition example_env_B :: "chan \<Rightarrow> byte list" where
  "example_env_B =
     (\<lambda>_. [])(User := request_bytes OP_READ_SECURE [5],
              Dealer := share_bytes 1 9 [3] [1] 19,
              PeerIn 1 := residual_bytes 9 1 [2] [- 4],
              PeerIn 16 := residual_bytes 9 16 [- 2] [- 8])"

definition example_party_A :: party where
  "example_party_A = \<lparr>trace = [], inbound = example_env_A, A_share = [4]\<rparr>"

definition example_party_B :: party where
  "example_party_B = \<lparr>trace = [], inbound = example_env_B, A_share = [3]\<rparr>"

text \<open>The events \<open>send_two_vecs\<close> logs when every value fits, and the channel of an event.\<close>

definition residual_events :: "int \<Rightarrow> int \<Rightarrow> int list \<Rightarrow> int list \<Rightarrow> event list" where
  "residual_events sid tag u_part v_part =
     [Connect (PeerOut tag), Send (PeerOut tag) (enc_i64 sid), Send (PeerOut tag) (enc_u8 tag),
      Send (PeerOut tag) (enc_u32 (int (length u_part)))]
     @ map (\<lambda>v. Send (PeerOut tag) (enc_i64 v)) u_part
     @ [Send (PeerOut tag) (enc_u32 (int (length v_part)))]
     @ map (\<lambda>v. Send (PeerOut tag) (enc_i64 v)) v_part
     @ [Close (PeerOut tag)]"

fun chan_of :: "event \<Rightarrow> chan" where
  "chan_of (Connect c) = c"
| "chan_of (Accept c) = c"
| "chan_of (Send c bs) = c"
| "chan_of (Shutdown c) = c"
| "chan_of (Close c) = c"

text \<open>A step that logs events on the channels in \<open>S\<close> only.\<close>

definition logs :: "chan set \<Rightarrow> ('a world_scheme, 'b) io \<Rightarrow> bool" where
  "logs S m \<longleftrightarrow> (\<forall>w. \<exists>es. trace (snd (m w)) = trace w @ es \<and> chan_of ` set es \<subseteq> S)"

text \<open>Element-wise operations on vectors, for stating what the comprehensions compute.\<close>

definition vadd :: "int list \<Rightarrow> int list \<Rightarrow> int list" where
  "vadd xs ys = map (\<lambda>(x, y). x + y) (zip xs ys)"

definition vsub :: "int list \<Rightarrow> int list \<Rightarrow> int list" where
  "vsub xs ys = map (\<lambda>(x, y). x - y) (zip xs ys)"

definition vneg :: "int list \<Rightarrow> int list" where
  "vneg xs = map uminus xs"

text \<open>
  A party whose single cell holds the largest i64 share, when a WRITE of \<open>[1]\<close> arrives,
  and when a READ with selector share \<open>[5]\<close> arrives (the peer then holds the memory share
  3 and the selector share \<open>- 4\<close>, and sends the residuals \<open>([- 3], [- 5])\<close> and
  \<open>([0], [- 1])\<close>).
\<close>

definition example_party_write :: party where
  "example_party_write =
     \<lparr>trace = [], inbound = (\<lambda>_. [])(User := request_bytes OP_WRITE_VEC [1]),
      A_share = [9223372036854775807]\<rparr>"

definition example_env_overflow :: "chan \<Rightarrow> byte list" where
  "example_env_overflow =
     (\<lambda>_. [])(User := request_bytes OP_READ_SECURE [5],
              Dealer := share_bytes 1 9 [2] [4] 6,
              PeerIn 1 := residual_bytes 9 1 [- 3] [- 5],
              PeerIn 16 := residual_bytes 9 16 [0] [- 1])"

definition example_party_overflow :: party where
  "example_party_overflow =
     \<lparr>trace = [], inbound = example_env_overflow, A_share = [9223372036854775807]\<rparr>"

text \<open>A step of the party that leaves the memory share as it found it.\<close>

definition keeps :: "(party, 'a) io \<Rightarrow> bool" where
  "keeps m \<longleftrightarrow> (\<forall>w. A_share (snd (m w)) = A_share w)"

text \<open>
  What a READ logs before its reply, and the value it then packs: the events of
  \<open>fetch_share\<close>, the two residual exchanges in the order the role runs them, and
  \<open>self_term + z01 + z10\<close> written out over the memory share \<open>mem\<close>, the selector share
  \<open>e\<close>, the triple share and the residuals received from the peer.
\<close>

definition fetch_events :: "int \<Rightarrow> event list" where
  "fetch_events dim =
     [Connect Dealer, Send Dealer (enc_u8 OP_REQUEST), Send Dealer (enc_u32 dim), Close Dealer]"

definition cross_value :: "role \<Rightarrow> int list \<Rightarrow> int list \<Rightarrow> int list \<Rightarrow> int list \<Rightarrow> int \<Rightarrow> int" where
  "cross_value role u v a_i b_i c_i =
     (if role = RoleA then dot u b_i + dot a_i v + c_i
      else dot u b_i + dot a_i v + dot u v + c_i)"

definition read_value ::
  "role \<Rightarrow> int list \<Rightarrow> int list \<Rightarrow> int list \<Rightarrow> int list \<Rightarrow> int
     \<Rightarrow> int list \<Rightarrow> int list \<Rightarrow> int list \<Rightarrow> int list \<Rightarrow> int" where
  "read_value role mem e a_i b_i c_i up1 vp1 up16 vp16 =
     (if role = RoleA
      then dot mem e
           + cross_value role (vadd (vsub mem a_i) up1) (vadd (vneg b_i) vp1) a_i b_i c_i
           + cross_value role (vadd (vneg a_i) up16) (vadd (vsub e b_i) vp16) a_i b_i c_i
      else dot mem e
           + cross_value role (vadd (vneg a_i) up1) (vadd (vsub e b_i) vp1) a_i b_i c_i
           + cross_value role (vadd (vsub mem a_i) up16) (vadd (vneg b_i) vp16) a_i b_i c_i)"

definition read_events :: "role \<Rightarrow> int \<Rightarrow> int \<Rightarrow> int list \<Rightarrow> int list \<Rightarrow> int list \<Rightarrow> int list \<Rightarrow> event list" where
  "read_events role rows sid mem e a_i b_i =
     fetch_events rows @
     (if role = RoleA
      then residual_events sid 1 (vsub mem a_i) (vneg b_i) @ [Accept (PeerIn 1), Close (PeerIn 1)]
           @ [Accept (PeerIn 16), Close (PeerIn 16)] @ residual_events sid 16 (vneg a_i) (vsub e b_i)
      else [Accept (PeerIn 1), Close (PeerIn 1)] @ residual_events sid 1 (vneg a_i) (vsub e b_i)
           @ residual_events sid 16 (vsub mem a_i) (vneg b_i) @ [Accept (PeerIn 16), Close (PeerIn 16)])"

text \<open>
  What the dealer logs when it serves one share on a connection (\<open>send_share\<close> followed by
  the \<open>shutdown\<close> and \<open>close\<close> of the \<open>finally\<close> clause), and the table invariant: no
  dimension has more than one connection waiting.
\<close>

definition share_events :: "nat \<Rightarrow> int \<Rightarrow> int \<Rightarrow> int list \<Rightarrow> int list \<Rightarrow> int \<Rightarrow> event list" where
  "share_events s dim sid a_i b_i c_i =
     [Send (Conn s) (enc_u8 OP_RESPONSE), Send (Conn s) (enc_u32 dim), Send (Conn s) (enc_i64 sid)]
     @ map (\<lambda>x. Send (Conn s) (enc_i64 x)) a_i
     @ map (\<lambda>x. Send (Conn s) (enc_i64 x)) b_i
     @ [Send (Conn s) (enc_i64 c_i), Shutdown (Conn s), Close (Conn s)]"

definition table_ok :: "dealer \<Rightarrow> bool" where
  "table_ok w \<longleftrightarrow> (\<forall>d. case waiting w d of None \<Rightarrow> True | Some dq \<Rightarrow> length dq \<le> 1)"

text \<open>A step of the dealer that keeps the table invariant.\<close>

definition tbl :: "(dealer, 'a) io \<Rightarrow> bool" where
  "tbl m \<longleftrightarrow> (\<forall>w. \<not> table_ok w \<or> table_ok (snd (m w)))"

text \<open>
  A dealer with connection 0 waiting for dimension 1, at the moment connection 1 sends
  its request for dimension 1.
\<close>

definition example_dealer :: dealer where
  "example_dealer =
     \<lparr>trace = [], inbound = (\<lambda>_. [])(Conn 1 := enc_u8 OP_REQUEST @ enc_u32 1),
      tape = (\<lambda>k. 37 * k + 5), drawn = 0, waiting = [1 \<mapsto> [0]]\<rparr>"

section \<open>Codec and socket lemmas\<close>

lemma length_be_bytes [simp]: "length (be_bytes n v) = n"
  by (induction n arbitrary: v) simp_all

lemma be_value_snoc: "be_value (bs @ [b]) = be_value bs * 256 + b"
  by (simp add: be_value_def)

lemma be_value_be_bytes: "be_value (be_bytes n v) = v mod 256 ^ n"
proof (induction n arbitrary: v)
  case 0
  show ?case by (simp add: be_value_def)
next
  case (Suc n)
  have "be_value (be_bytes (Suc n) v) = (v div 256) mod 256 ^ n * 256 + v mod 256"
    by (simp add: be_value_snoc Suc.IH)
  also have "\<dots> = v mod 256 ^ Suc n"
    by (simp add: mod_mult2_eq mult.commute)
  finally show ?case .
qed

lemma unpack_pack_i64: "in_i64 x \<Longrightarrow> unpack_i64 (enc_i64 x) = x"
proof -
  assume r: "in_i64 x"
  have v: "int (be_value (enc_i64 x)) = x mod 18446744073709551616"
    by (simp add: enc_i64_def be_value_be_bytes)
  show ?thesis
  proof (cases "x < 0")
    case True
    have "(x + 18446744073709551616) mod 18446744073709551616 = x + 18446744073709551616"
      using r True by (intro mod_pos_pos_trivial) (simp_all add: in_i64_def)
    then have "x mod 18446744073709551616 = x + 18446744073709551616" by simp
    then show ?thesis using r True by (simp add: unpack_i64_def v in_i64_def)
  next
    case False
    then have "x mod 18446744073709551616 = x"
      using r by (intro mod_pos_pos_trivial) (simp_all add: in_i64_def)
    then show ?thesis using r by (simp add: unpack_i64_def v in_i64_def)
  qed
qed

lemma unpack_pack_u32: "unpack_u32 (enc_u32 x) = x mod 4294967296"
proof -
  have "(256::nat) ^ 4 = 4294967296" by simp
  then have "be_value (be_bytes 4 (nat (x mod 4294967296))) = nat (x mod 4294967296) mod 4294967296"
    by (simp only: be_value_be_bytes)
  also have "\<dots> = nat (x mod 4294967296)"
    by (rule mod_less) (simp add: nat_less_iff)
  finally show ?thesis by (simp add: unpack_u32_def enc_u32_def)
qed

lemma unpack_pack_u8: "0 \<le> x \<Longrightarrow> x \<le> 255 \<Longrightarrow> unpack_u8 (enc_u8 x) = x"
  by (simp add: unpack_u8_def enc_u8_def be_value_def)

lemma pack_i64_eq: "pack_i64 x = (if in_i64 x then Inr (enc_i64 x) else Inl StructError)"
  by (simp add: pack_i64_def in_i64_def enc_i64_def)

lemma pack_u32_eq: "pack_u32 x = Inr (enc_u32 x)"
  by (simp add: pack_u32_def enc_u32_def)

lemma pack_u8_eq: "pack_u8 x = (if 0 \<le> x \<and> x \<le> 255 then Inr (enc_u8 x) else Inl StructError)"
  by (simp add: pack_u8_def enc_u8_def)

lemma length_enc [simp]: "length (enc_i64 x) = 8" "length (enc_u32 x) = 4" "length (enc_u8 x) = 1"
  by (simp_all add: enc_i64_def enc_u32_def enc_u8_def)

subsection \<open>Monad laws\<close>

lemma bindE_returnE [simp]: "bindE (returnE x) f = f x"
  by (simp add: bindE_def returnE_def)

lemma bindE_raise [simp]: "bindE (raise e) f = raise e"
  by (simp add: bindE_def raise_def)

lemma bindE_Inr: "m w = (Inr x, w') \<Longrightarrow> bindE m f w = f x w'"
  by (simp add: bindE_def)

lemma bindE_Inl: "m w = (Inl e, w') \<Longrightarrow> bindE m f w = (Inl e, w')"
  by (simp add: bindE_def)

lemma liftE_simps [simp]: "liftE (Inr x) = returnE x" "liftE (Inl e) = raise e"
  by (simp_all add: liftE_def)

subsection \<open>Receiving\<close>

lemma recv_exact_loop_eq:
  "recv_exact_loop ch n b w =
     (if n \<le> length b then (Inr b, w)
      else if n - length b \<le> length (inbound w ch)
      then (Inr (b @ take (n - length b) (inbound w ch)),
            w\<lparr>inbound := (inbound w)(ch := drop (n - length b) (inbound w ch))\<rparr>)
      else (Inl ConnectionError, w\<lparr>inbound := (inbound w)(ch := [])\<rparr>))"
proof (cases "n \<le> length b")
  case True
  then show ?thesis by (subst recv_exact_loop.simps) (simp add: returnE_def)
next
  case nb: False
  let ?k = "n - length b"
  let ?w1 = "w\<lparr>inbound := (inbound w)(ch := drop ?k (inbound w ch))\<rparr>"
  have step: "sock_recv ch ?k w = (Inr (take ?k (inbound w ch)), ?w1)"
    by (simp add: sock_recv_def)
  show ?thesis
  proof (cases "?k \<le> length (inbound w ch)")
    case True
    have ne: "take ?k (inbound w ch) \<noteq> []" using nb True by auto
    have fin: "recv_exact_loop ch n (b @ take ?k (inbound w ch)) ?w1
                  = (Inr (b @ take ?k (inbound w ch)), ?w1)"
      using True nb by (subst recv_exact_loop.simps) (simp add: returnE_def min_def)
    show ?thesis
      using nb True ne fin
      by (subst recv_exact_loop.simps) (simp add: bindE_def step)
  next
    case short: False
    show ?thesis
    proof (cases "inbound w ch = []")
      case True
      then show ?thesis using nb short
        by (subst recv_exact_loop.simps) (simp add: bindE_def step raise_def)
    next
      case False
      have t: "take ?k (inbound w ch) = inbound w ch" using short by simp
      have d: "drop ?k (inbound w ch) = []" using short by simp
      have lt: "length b + length (inbound w ch) < n" using short nb by arith
      have again: "recv_exact_loop ch n (b @ inbound w ch) ?w1 = (Inl ConnectionError, ?w1)"
        using lt d
        by (subst recv_exact_loop.simps) (simp add: bindE_def sock_recv_def raise_def)
      show ?thesis using nb short False again
        by (subst recv_exact_loop.simps) (simp add: bindE_def step t d)
    qed
  qed
qed

lemma recv_exact_eq:
  "recv_exact ch n w =
     (if n \<le> length (inbound w ch)
      then (Inr (take n (inbound w ch)), w\<lparr>inbound := (inbound w)(ch := drop n (inbound w ch))\<rparr>)
      else (Inl ConnectionError, w\<lparr>inbound := (inbound w)(ch := [])\<rparr>))"
  by (simp add: recv_exact_def recv_exact_loop_eq)


subsection \<open>Reading what was packed\<close>

lemma read_i64_run:
  "inbound w ch = enc_i64 x @ rest \<Longrightarrow> in_i64 x \<Longrightarrow>
   read_i64 ch w = (Inr x, w\<lparr>inbound := (inbound w)(ch := rest)\<rparr>)"
  by (simp add: read_i64_def bindE_def recv_exact_eq returnE_def unpack_pack_i64)

lemma read_u32_run:
  "inbound w ch = enc_u32 x @ rest \<Longrightarrow>
   read_u32 ch w = (Inr (x mod 4294967296), w\<lparr>inbound := (inbound w)(ch := rest)\<rparr>)"
  by (simp add: read_u32_def bindE_def recv_exact_eq returnE_def unpack_pack_u32)

lemma read_u8_run:
  "inbound w ch = enc_u8 x @ rest \<Longrightarrow> 0 \<le> x \<Longrightarrow> x \<le> 255 \<Longrightarrow>
   read_u8 ch w = (Inr x, w\<lparr>inbound := (inbound w)(ch := rest)\<rparr>)"
  by (simp add: read_u8_def bindE_def recv_exact_eq returnE_def unpack_pack_u8)

lemma enc_i64s_simps [simp]:
  "enc_i64s [] = []" "enc_i64s (x # xs) = enc_i64 x @ enc_i64s xs"
  by (simp_all add: enc_i64s_def)

lemma length_enc_i64s [simp]: "length (enc_i64s xs) = 8 * length xs"
  by (induction xs) simp_all

lemma read_i64s_run:
  "inbound w ch = enc_i64s xs @ rest \<Longrightarrow> list_all in_i64 xs \<Longrightarrow>
   read_i64s ch (length xs) w = (Inr xs, w\<lparr>inbound := (inbound w)(ch := rest)\<rparr>)"
proof (induction xs arbitrary: w)
  case Nil
  then have "(inbound w)(ch := rest) = inbound w" by (auto simp: fun_upd_idem_iff)
  then show ?case by (simp add: returnE_def)
next
  case (Cons x xs)
  let ?w1 = "w\<lparr>inbound := (inbound w)(ch := enc_i64s xs @ rest)\<rparr>"
  have h: "read_i64 ch w = (Inr x, ?w1)"
    using Cons.prems by (intro read_i64_run) simp_all
  have "read_i64s ch (length xs) ?w1 = (Inr xs, ?w1\<lparr>inbound := (inbound ?w1)(ch := rest)\<rparr>)"
    using Cons.prems by (intro Cons.IH) simp_all
  then have t: "read_i64s ch (length xs) ?w1 = (Inr xs, w\<lparr>inbound := (inbound w)(ch := rest)\<rparr>)"
    by simp
  have "read_i64s ch (Suc (length xs)) w = (Inr (x # xs), w\<lparr>inbound := (inbound w)(ch := rest)\<rparr>)"
    unfolding read_i64s.simps bindE_def h by (simp add: t returnE_def)
  then show ?case by (simp only: length_Cons)
qed

subsection \<open>Sending\<close>

lemma sendall_Inr: "sendall ch (Inr bs) w = (Inr (), w\<lparr>trace := trace w @ [Send ch bs]\<rparr>)"
  by (simp add: sendall_def log_event_def)

lemma sendall_Inl: "sendall ch (Inl e) w = (Inl e, w)"
  by (simp add: sendall_def bindE_def liftE_def raise_def)

lemma send_i64s_run:
  "list_all in_i64 vs \<Longrightarrow>
   send_i64s ch vs w = (Inr (), w\<lparr>trace := trace w @ map (\<lambda>v. Send ch (enc_i64 v)) vs\<rparr>)"
proof (induction vs arbitrary: w)
  case Nil
  then show ?case by (simp add: returnE_def)
next
  case (Cons v vs)
  then show ?case by (simp add: bindE_def pack_i64_eq sendall_Inr)
qed

lemma send_i64s_fail:
  "\<not> list_all in_i64 vs \<Longrightarrow> fst (send_i64s ch vs w) = Inl StructError"
proof (induction vs arbitrary: w)
  case Nil
  then show ?case by simp
next
  case (Cons v vs)
  then show ?case
    by (cases "in_i64 v") (simp_all add: bindE_def pack_i64_eq sendall_Inr sendall_Inl)
qed

lemma sent_append [simp]: "sent ch (es @ fs) = sent ch es @ sent ch fs"
  by (induction ch es rule: sent.induct) simp_all

lemma sent_map_Send [simp]: "sent ch (map (\<lambda>v. Send ch (enc_i64 v)) vs) = enc_i64s vs"
  by (induction vs) simp_all

lemma sent_map_Send_other [simp]: "c \<noteq> ch \<Longrightarrow> sent ch (map (\<lambda>v. Send c (f v)) vs) = []"
  by (induction vs) simp_all

section \<open>Client coordinator: the two shares of a request\<close>

lemma randint_run:
  "randint lo hi w = (Inr (lo + int (tape w (drawn w) mod nat (hi - lo + 1))), w\<lparr>drawn := drawn w + 1\<rparr>)"
  by (simp add: randint_def)

lemma rand_list_run:
  "\<exists>xs. rand_list n w = (Inr xs, w\<lparr>drawn := drawn w + n\<rparr>) \<and> length xs = n
        \<and> (\<forall>x\<in>set xs. 1 \<le> x \<and> x \<le> 1024)"
proof (induction n arbitrary: w)
  case 0
  show ?case by (simp add: returnE_def)
next
  case (Suc n)
  let ?x = "1 + int (tape w (drawn w) mod 1024)"
  let ?w1 = "w\<lparr>drawn := drawn w + 1\<rparr>"
  have h: "rand_elem w = (Inr ?x, ?w1)" by (simp add: rand_elem_def randint_def)
  obtain xs where t: "rand_list n ?w1 = (Inr xs, ?w1\<lparr>drawn := drawn ?w1 + n\<rparr>)"
      and l: "length xs = n" and r: "\<forall>x\<in>set xs. 1 \<le> x \<and> x \<le> 1024"
    using Suc.IH [of ?w1] by blast
  have rx: "1 \<le> ?x \<and> ?x \<le> 1024"
  proof -
    have "tape w (drawn w) mod 1024 < 1024" by simp
    then show ?thesis by linarith
  qed
  from t have t': "rand_list n (w\<lparr>drawn := Suc (drawn w)\<rparr>) = (Inr xs, w\<lparr>drawn := Suc (drawn w + n)\<rparr>)"
    by simp
  have "rand_list (Suc n) w = (Inr (?x # xs), w\<lparr>drawn := drawn w + Suc n\<rparr>)"
    unfolding rand_list.simps bindE_def h by (simp add: t' returnE_def)
  with l r rx show ?case by auto
qed

lemma subtract_loop_ok:
  "\<forall>i\<in>set ns. i < length e \<and> i < length f \<Longrightarrow> distinct ns \<Longrightarrow>
   \<exists>e'. subtract_loop ns e f = Inr e' \<and> length e' = length e
        \<and> (\<forall>i<length e. e' ! i = (if i \<in> set ns then e ! i - f ! i else e ! i))"
proof (induction ns arbitrary: e)
  case Nil
  then show ?case by simp
next
  case (Cons k ns)
  let ?e1 = "e[k := e ! k - f ! k]"
  have "\<forall>i\<in>set ns. i < length ?e1 \<and> i < length f" using Cons.prems by simp
  moreover have "distinct ns" using Cons.prems by simp
  ultimately obtain e' where s: "subtract_loop ns ?e1 f = Inr e'" and l: "length e' = length ?e1"
      and c: "\<forall>i<length ?e1. e' ! i = (if i \<in> set ns then ?e1 ! i - f ! i else ?e1 ! i)"
    using Cons.IH [of ?e1] by blast
  have k: "k < length e" "k < length f" "k \<notin> set ns" using Cons.prems by auto
  have "subtract_loop (k # ns) e f = Inr e'" using k s by simp
  moreover have "length e' = length e" using l by simp
  moreover have "\<forall>i<length e. e' ! i = (if i \<in> set (k # ns) then e ! i - f ! i else e ! i)"
    using c k by (auto simp: nth_list_update)
  ultimately show ?case by blast
qed

lemma setitem_ok:
  "0 \<le> idx \<Longrightarrow> idx < int (length xs) \<Longrightarrow> setitem xs idx v = Inr (xs[nat idx := v])"
  by (simp add: setitem_def Let_def)

lemma make_standard_basis_share_run:
  assumes "0 \<le> idx" "idx < dim"
  shows "\<exists>e f. make_standard_basis_share dim idx val w = (Inr (e, f), w\<lparr>drawn := drawn w + nat dim\<rparr>)
           \<and> rand_vec dim w = (Inr f, w\<lparr>drawn := drawn w + nat dim\<rparr>)
           \<and> length e = nat dim \<and> length f = nat dim
           \<and> (\<forall>x\<in>set f. 1 \<le> x \<and> x \<le> 1024)
           \<and> (\<forall>i<nat dim. e ! i + f ! i = (if i = nat idx then val else 0))"
proof -
  let ?n = "nat dim"
  let ?w1 = "w\<lparr>drawn := drawn w + ?n\<rparr>"
  have s: "setitem (replicate ?n 0) idx val = Inr ((replicate ?n 0)[nat idx := val])"
    using assms by (intro setitem_ok) simp_all
  obtain f where f: "rand_list ?n w = (Inr f, ?w1)" and lf: "length f = ?n"
      and rf: "\<forall>x\<in>set f. 1 \<le> x \<and> x \<le> 1024"
    using rand_list_run [of ?n w] by blast
  let ?e0 = "(replicate ?n 0)[nat idx := val]"
  have "\<forall>i\<in>set [0..<?n]. i < length ?e0 \<and> i < length f" using lf by simp
  then obtain e where e: "subtract_loop [0..<?n] ?e0 f = Inr e" and le: "length e = length ?e0"
      and ce: "\<forall>i<length ?e0. e ! i = (if i \<in> set [0..<?n] then ?e0 ! i - f ! i else ?e0 ! i)"
    using subtract_loop_ok [of "[0..<?n]" ?e0 f] by auto
  have run: "make_standard_basis_share dim idx val w = (Inr (e, f), ?w1)"
    unfolding make_standard_basis_share_def s rand_vec_def
    by (simp add: bindE_def f e returnE_def)
  have sum: "\<forall>i<?n. e ! i + f ! i = (if i = nat idx then val else 0)"
    using ce assms by (auto simp: nth_list_update)
  show ?thesis using run f lf le rf sum by (auto simp: rand_vec_def)
qed

text \<open>
  C9. For every \<open>dim \<ge> 1\<close>, every index \<open>0 \<le> idx < dim\<close> and any two values, the second
  share \<open>f\<close> returned by \<open>make_standard_basis_share\<close> (the vector sent to party B) is the
  same under the same random choices: it does not depend on the value.
\<close>

theorem basis_share_f_independent_of_val:
  assumes "1 \<le> dim" "0 \<le> idx" "idx < dim"
  shows "\<exists>e e' f w'.
           make_standard_basis_share dim idx val w = (Inr (e, f), w')
         \<and> make_standard_basis_share dim idx val' w = (Inr (e', f), w')"
proof -
  obtain e f where a: "make_standard_basis_share dim idx val w
        = (Inr (e, f), w\<lparr>drawn := drawn w + nat dim\<rparr>)"
      and fa: "rand_vec dim w = (Inr f, w\<lparr>drawn := drawn w + nat dim\<rparr>)"
    using make_standard_basis_share_run [OF assms(2,3), of val w] by blast
  obtain e' f' where b: "make_standard_basis_share dim idx val' w
        = (Inr (e', f'), w\<lparr>drawn := drawn w + nat dim\<rparr>)"
      and fb: "rand_vec dim w = (Inr f', w\<lparr>drawn := drawn w + nat dim\<rparr>)"
    using make_standard_basis_share_run [OF assms(2,3), of val' w] by blast
  from fa fb have "f' = f" by simp
  with a b show ?thesis by blast
qed

theorem basis_share_f_independent_of_val_witness:
  "(1::int) \<le> 4 \<and> (0::int) \<le> 2 \<and> (2::int) < 4 \<and>
   (\<exists>e e' f w'.
      make_standard_basis_share 4 2 7
        \<lparr>trace = [], inbound = (\<lambda>_. []), tape = (\<lambda>k. 37 * k + 5), drawn = 0\<rparr>
        = (Inr (e, f), w')
    \<and> make_standard_basis_share 4 2 5
        \<lparr>trace = [], inbound = (\<lambda>_. []), tape = (\<lambda>k. 37 * k + 5), drawn = 0\<rparr>
        = (Inr (e', f), w'))"
  using basis_share_f_independent_of_val
    [of 4 2 7 "\<lparr>trace = [], inbound = (\<lambda>_. []), tape = (\<lambda>k. 37 * k + 5), drawn = 0\<rparr>" 5]
  by simp

section \<open>Party: what a request does to the memory share\<close>

lemma keeps_returnE [intro!]: "keeps (returnE x)" by (simp add: keeps_def returnE_def)
lemma keeps_raise [intro!]: "keeps (raise e)" by (simp add: keeps_def raise_def)

lemma keeps_bindE [intro!]:
  assumes "keeps m" "\<And>x. keeps (f x)"
  shows "keeps (bindE m f)"
  unfolding keeps_def
proof
  fix w
  show "A_share (snd (bindE m f w)) = A_share w"
  proof (cases "m w")
    case (Pair r w1)
    then have a: "A_share w1 = A_share w" using assms(1) by (auto simp: keeps_def dest: spec [of _ w])
    show ?thesis
    proof (cases r)
      case (Inl e)
      then show ?thesis using Pair a by (simp add: bindE_def)
    next
      case (Inr x)
      have "A_share (snd (f x w1)) = A_share w1" using assms(2) by (simp add: keeps_def)
      then show ?thesis using Pair Inr a by (simp add: bindE_def)
    qed
  qed
qed

lemma keeps_if [intro!]: "keeps a \<Longrightarrow> keeps b \<Longrightarrow> keeps (if c then a else b)" by simp
lemma keeps_case_prod [intro!]: "(\<And>a b. keeps (f a b)) \<Longrightarrow> keeps (case p of (a, b) \<Rightarrow> f a b)"
  by (cases p) simp
lemma keeps_liftE [intro!]: "keeps (liftE r)" by (cases r) (simp_all add: keeps_raise keeps_returnE)
lemma keeps_log_event [intro!]: "keeps (log_event ev)" by (simp add: keeps_def log_event_def)
lemma keeps_connect [intro!]: "keeps (connect ch)" by (simp add: connect_def keeps_log_event)
lemma keeps_accept [intro!]: "keeps (accept ch)" by (simp add: accept_def keeps_log_event)
lemma keeps_close [intro!]: "keeps (close ch)" by (simp add: close_def keeps_log_event)
lemma keeps_sendall [intro!]: "keeps (sendall ch p)" unfolding sendall_def by blast
lemma keeps_recv_exact [intro!]: "keeps (recv_exact ch n)" by (simp add: keeps_def recv_exact_eq)
lemma keeps_read_u8 [intro!]: "keeps (read_u8 ch)" unfolding read_u8_def by blast
lemma keeps_read_u32 [intro!]: "keeps (read_u32 ch)" unfolding read_u32_def by blast
lemma keeps_read_i64 [intro!]: "keeps (read_i64 ch)" unfolding read_i64_def by blast
lemma keeps_send_i64s [intro!]: "keeps (send_i64s ch vs)" by (induction vs) auto
lemma keeps_read_i64s [intro!]: "keeps (read_i64s ch n)" by (induction n) auto
lemma keeps_get_A_share [intro!]: "keeps get_A_share" by (simp add: keeps_def get_A_share_def)
lemma keeps_send_two_vecs [intro!]: "keeps (send_two_vecs sid tag u v)"
  unfolding send_two_vecs_def by blast
lemma keeps_recv_two_vecs [intro!]: "keeps (recv_two_vecs sid tag d)"
  unfolding recv_two_vecs_def by blast
lemma keeps_fetch_share [intro!]: "keeps (fetch_share d)"
  unfolding fetch_share_def by blast
lemma keeps_dta_cross [intro!]: "keeps (dta_cross role sid tag x my a b c)"
  unfolding dta_cross_def Let_def by blast
lemma keeps_serve_read: "keeps (serve_read role rows)"
  unfolding serve_read_def Let_def by blast

lemma keeps_finallyE:
  assumes "keeps m" "keeps c" shows "keeps (finallyE m c)"
  unfolding keeps_def
proof
  fix w
  obtain r w1 where m: "m w = (r, w1)" by (cases "m w")
  obtain r2 w2 where c: "c w1 = (r2, w2)" by (cases "c w1")
  have "A_share w1 = A_share w" using assms(1) m by (auto simp: keeps_def dest: spec [of _ w])
  moreover have "A_share w2 = A_share w1" using assms(2) c by (auto simp: keeps_def dest: spec [of _ w1])
  ultimately show "A_share (snd (finallyE m c w)) = A_share w"
    using m c by (cases r2) (simp_all add: finallyE_def)
qed


lemma read_u8_eq:
  "read_u8 ch w =
     (case inbound w ch of
        [] \<Rightarrow> (Inl ConnectionError, w\<lparr>inbound := (inbound w)(ch := [])\<rparr>)
      | b # bs \<Rightarrow> (Inr (int b), w\<lparr>inbound := (inbound w)(ch := bs)\<rparr>))"
  by (cases "inbound w ch")
     (simp_all add: read_u8_def bindE_def recv_exact_eq returnE_def unpack_u8_def be_value_def)

lemma A_share_finallyE_close:
  "A_share (snd (finallyE m (close ch) w)) = A_share (snd (m w))"
  by (cases "m w") (simp add: finallyE_def close_def log_event_def)

text \<open>
  C10. A READ never changes the party's memory share: whether the request completes or
  aborts at any point, \<open>A_share\<close> after the connection is \<open>A_share\<close> before it. The same
  holds for every connection whose first byte is not \<open>OP_WRITE_VEC\<close> (a bad op byte, an
  empty stream): only a WRITE modifies \<open>A_share\<close>.
\<close>

theorem read_never_changes_A_share:
  assumes "take 1 (inbound w User) \<noteq> [64]"
  shows "A_share (snd (serve_conn role rows w)) = A_share w"
proof -
  have "A_share (snd (serve_try role rows w)) = A_share w"
  proof (cases "inbound w User")
    case Nil
    then show ?thesis by (simp add: serve_try_def bindE_def read_u8_eq)
  next
    case (Cons b bs)
    let ?w1 = "w\<lparr>inbound := (inbound w)(User := bs)\<rparr>"
    have op: "int b \<noteq> OP_WRITE_VEC" using assms Cons by (simp add: OP_WRITE_VEC_def)
    have k: "A_share (snd (serve_read role rows ?w1)) = A_share ?w1"
      using keeps_serve_read [of role rows] by (simp add: keeps_def)
    have "serve_try role rows w =
            (if int b = OP_READ_SECURE then serve_read role rows ?w1 else (Inr (), ?w1))"
      using op Cons by (simp add: serve_try_def bindE_def read_u8_eq returnE_def)
    then show ?thesis using k by simp
  qed
  then show ?thesis by (simp add: serve_conn_def A_share_finallyE_close)
qed


theorem read_never_changes_A_share_witness:
  "take 1 (inbound example_party_A User) \<noteq> [64]
   \<and> A_share (snd (serve_conn RoleA 1 example_party_A)) = A_share example_party_A"
proof -
  have h: "take 1 (inbound example_party_A User) \<noteq> [64]"
    by (simp add: example_party_A_def example_env_A_def request_bytes_def enc_u8_def
          OP_READ_SECURE_def)
  show ?thesis using h read_never_changes_A_share [OF h, of RoleA 1] by simp
qed

subsection \<open>Malformed requests\<close>

lemma read_u32_eq:
  "4 \<le> length (inbound w ch) \<Longrightarrow>
   read_u32 ch w = (Inr (unpack_u32 (take 4 (inbound w ch))),
                    w\<lparr>inbound := (inbound w)(ch := drop 4 (inbound w ch))\<rparr>)"
  by (simp add: read_u32_def bindE_def recv_exact_eq returnE_def)

lemma serve_conn_bad_op:
  assumes "inbound w User = b # bs" "int b \<noteq> OP_WRITE_VEC" "int b \<noteq> OP_READ_SECURE"
  shows "serve_conn role rows w
           = (Inr (), w\<lparr>trace := trace w @ [Close User], inbound := (inbound w)(User := bs)\<rparr>)"
  using assms
  by (simp add: serve_conn_def finallyE_def serve_try_def bindE_def read_u8_eq returnE_def
        close_def log_event_def)

lemma serve_conn_write_dim_mismatch:
  assumes "inbound w User = enc_u8 OP_WRITE_VEC @ enc_u32 dim @ rest"
    and "dim mod 4294967296 \<noteq> rows"
  shows "serve_conn role rows w
           = (Inl (RuntimeError ''WRITE dim != rows''),
              w\<lparr>trace := trace w @ [Close User], inbound := (inbound w)(User := rest)\<rparr>)"
proof -
  let ?w1 = "w\<lparr>inbound := (inbound w)(User := enc_u32 dim @ rest)\<rparr>"
  have a: "read_u8 User w = (Inr OP_WRITE_VEC, ?w1)"
    using assms(1) by (simp add: read_u8_eq enc_u8_def OP_WRITE_VEC_def)
  have b: "read_u32 User ?w1 = (Inr (dim mod 4294967296), ?w1\<lparr>inbound := (inbound ?w1)(User := rest)\<rparr>)"
    by (rule read_u32_run) simp
  have "serve_try role rows w
          = (Inl (RuntimeError ''WRITE dim != rows''), w\<lparr>inbound := (inbound w)(User := rest)\<rparr>)"
    unfolding serve_try_def bindE_def a
    using assms(2) by (simp add: serve_write_def bindE_def b raise_def)
  then show ?thesis by (simp add: serve_conn_def finallyE_def close_def log_event_def)
qed

lemma serve_loop_raises:
  assumes "serve_conn role rows (w\<lparr>inbound := env, trace := trace w @ [Accept User]\<rparr>) = (Inl e, w')"
  shows "serve_loop role rows (env # envs) w = (Inl e, w')"
  using assms by (simp add: bindE_def accept_def log_event_def)

lemma serve_loop_continues:
  assumes "serve_conn role rows (w\<lparr>inbound := env, trace := trace w @ [Accept User]\<rparr>) = (Inr (), w')"
  shows "serve_loop role rows (env # envs) w = serve_loop role rows envs w'"
  using assms by (simp add: bindE_def accept_def log_event_def)

text \<open>
  C6. A framing error on a user connection should cost that connection only. A bad op byte
  does (\<open>serve_conn_bad_op\<close> returns normally and the loop goes on). A WRITE whose dimension
  is not \<open>rows\<close> raises inside the \<open>try\<close>; the \<open>finally\<close> closes the connection and the
  exception leaves the \<open>while True\<close> loop: \<open>serve\<close> ends with the error, whatever
  connections \<open>envs\<close> are still to come, and none of them is accepted.
\<close>

theorem serve_ends_on_dim_mismatch:
  "serve RoleA 2 (((\<lambda>_. [])(User := enc_u8 OP_WRITE_VEC @ enc_u32 3 @ enc_i64s [1, 2, 3])) # envs)
     = (Inl (RuntimeError ''WRITE dim != rows''),
        \<lparr>trace = [Accept User, Close User],
         inbound = (\<lambda>_. [])(User := enc_i64s [1, 2, 3]),
         A_share = [0, 0]\<rparr>)"
proof -
  let ?env = "(\<lambda>_. [])(User := enc_u8 OP_WRITE_VEC @ enc_u32 3 @ enc_i64s [1, 2, 3])"
  let ?w0 = "\<lparr>trace = [], inbound = (\<lambda>_. []), A_share = replicate (nat 2) 0\<rparr>"
  let ?w1 = "?w0\<lparr>inbound := ?env, trace := trace ?w0 @ [Accept User]\<rparr>"
  have "serve_conn RoleA 2 ?w1
          = (Inl (RuntimeError ''WRITE dim != rows''),
             ?w1\<lparr>trace := trace ?w1 @ [Close User],
                  inbound := (inbound ?w1)(User := enc_i64s [1, 2, 3])\<rparr>)"
    by (rule serve_conn_write_dim_mismatch [where dim = 3]) simp_all
  then have "serve_loop RoleA 2 (?env # envs) ?w0
          = (Inl (RuntimeError ''WRITE dim != rows''),
             ?w1\<lparr>trace := trace ?w1 @ [Close User],
                  inbound := (inbound ?w1)(User := enc_i64s [1, 2, 3])\<rparr>)"
    by (rule serve_loop_raises)
  then show ?thesis by (simp add: serve_def numeral_2_eq_2)
qed

section \<open>Arithmetic and the i64 range\<close>

lemma accumulate_ok:
  "\<forall>i\<in>set ns. i < length (A_share w) \<and> i < length vec \<Longrightarrow> distinct ns \<Longrightarrow>
   \<exists>m. accumulate ns vec w = (Inr (), w\<lparr>A_share := m\<rparr>) \<and> length m = length (A_share w)
       \<and> (\<forall>i<length (A_share w). m ! i = (if i \<in> set ns then A_share w ! i + vec ! i else A_share w ! i))"
proof (induction ns arbitrary: w)
  case Nil
  have "accumulate [] vec w = (Inr (), w\<lparr>A_share := A_share w\<rparr>)" by (simp add: returnE_def)
  then show ?case by (intro exI [of _ "A_share w"]) simp
next
  case (Cons k ns)
  let ?w1 = "w\<lparr>A_share := (A_share w)[k := A_share w ! k + vec ! k]\<rparr>"
  have k: "k < length (A_share w)" "k < length vec" "k \<notin> set ns" using Cons.prems by auto
  have "\<forall>i\<in>set ns. i < length (A_share ?w1) \<and> i < length vec" using Cons.prems by simp
  moreover have "distinct ns" using Cons.prems by simp
  ultimately obtain m where r: "accumulate ns vec ?w1 = (Inr (), ?w1\<lparr>A_share := m\<rparr>)"
      and l: "length m = length (A_share ?w1)"
      and c: "\<forall>i<length (A_share ?w1). m ! i
                 = (if i \<in> set ns then A_share ?w1 ! i + vec ! i else A_share ?w1 ! i)"
    using Cons.IH [of ?w1] by blast
  have "accumulate (k # ns) vec w = (Inr (), w\<lparr>A_share := m\<rparr>)"
    using k r by (simp add: bindE_def)
  moreover have "length m = length (A_share w)" using l by simp
  moreover have "\<forall>i<length (A_share w). m ! i
                 = (if i \<in> set (k # ns) then A_share w ! i + vec ! i else A_share w ! i)"
    using c k by (auto simp: nth_list_update)
  ultimately show ?case by blast
qed

lemma accumulate_run:
  assumes "length vec = length (A_share w)"
  shows "accumulate [0..<length vec] vec w
           = (Inr (), w\<lparr>A_share := map (\<lambda>(x, y). x + y) (zip (A_share w) vec)\<rparr>)"
proof -
  obtain m where r: "accumulate [0..<length vec] vec w = (Inr (), w\<lparr>A_share := m\<rparr>)"
      and l: "length m = length (A_share w)"
      and c: "\<forall>i<length (A_share w). m ! i
                = (if i \<in> set [0..<length vec] then A_share w ! i + vec ! i else A_share w ! i)"
    using accumulate_ok [of "[0..<length vec]" w vec] assms by auto
  have "m = map (\<lambda>(x, y). x + y) (zip (A_share w) vec)"
    using l c assms by (intro nth_equalityI) simp_all
  with r show ?thesis by simp
qed

section \<open>Residual exchange: what a run does\<close>

lemma sent_residual_events [simp]:
  "sent (PeerOut tag) (residual_events sid tag u v) = residual_bytes sid tag u v"
  by (simp add: residual_events_def residual_bytes_def)

lemma send_two_vecs_run:
  assumes "in_i64 sid" "0 \<le> tag" "tag \<le> 255" "list_all in_i64 u" "list_all in_i64 v"
  shows "send_two_vecs sid tag u v w
           = (Inr (), w\<lparr>trace := trace w @ residual_events sid tag u v\<rparr>)"
  using assms
  by (simp add: send_two_vecs_def bindE_def connect_def close_def log_event_def
        pack_i64_eq pack_u8_eq pack_u32_eq sendall_Inr send_i64s_run residual_events_def)

lemma recv_two_vecs_run:
  assumes "inbound w (PeerIn tag) = residual_bytes sid tag u v @ rest"
    and "in_i64 sid" "0 \<le> tag" "tag \<le> 255" "list_all in_i64 u" "list_all in_i64 v"
    and "int (length u) = dim" "int (length v) = dim" "dim < 4294967296"
  shows "recv_two_vecs sid tag dim w
           = (Inr (u, v), w\<lparr>trace := trace w @ [Accept (PeerIn tag), Close (PeerIn tag)],
                            inbound := (inbound w)(PeerIn tag := rest)\<rparr>)"
proof -
  let ?c = "PeerIn tag"
  let ?w0 = "w\<lparr>trace := trace w @ [Accept ?c]\<rparr>"
  let ?w1 = "?w0\<lparr>inbound := (inbound w)(?c := enc_u8 tag @ enc_u32 dim @ enc_i64s u @ enc_u32 dim @ enc_i64s v @ rest)\<rparr>"
  let ?w2 = "?w0\<lparr>inbound := (inbound w)(?c := enc_u32 dim @ enc_i64s u @ enc_u32 dim @ enc_i64s v @ rest)\<rparr>"
  let ?w3 = "?w0\<lparr>inbound := (inbound w)(?c := enc_i64s u @ enc_u32 dim @ enc_i64s v @ rest)\<rparr>"
  let ?w4 = "?w0\<lparr>inbound := (inbound w)(?c := enc_u32 dim @ enc_i64s v @ rest)\<rparr>"
  let ?w5 = "?w0\<lparr>inbound := (inbound w)(?c := enc_i64s v @ rest)\<rparr>"
  let ?w6 = "?w0\<lparr>inbound := (inbound w)(?c := rest)\<rparr>"
  have d: "dim mod 4294967296 = dim" "nat dim = length u" "nat dim = length v"
    using assms(7,8,9) by auto
  have r1: "read_i64 ?c ?w0 = (Inr sid, ?w1)"
    using assms(1,2,7,8) read_i64_run [of ?w0 ?c sid] by (simp add: residual_bytes_def)
  have r2: "read_u8 ?c ?w1 = (Inr tag, ?w2)"
    using assms(3,4) read_u8_run [of ?w1 ?c tag] by simp
  have r3: "read_u32 ?c ?w2 = (Inr dim, ?w3)"
    using read_u32_run [of ?w2 ?c dim] d by simp
  have r4: "read_i64s ?c (length u) ?w3 = (Inr u, ?w4)"
    using assms(5) read_i64s_run [of ?w3 ?c u] by simp
  have r5: "read_u32 ?c ?w4 = (Inr dim, ?w5)"
    using read_u32_run [of ?w4 ?c dim] d by simp
  have "read_i64s ?c (length v) ?w5 = (Inr v, ?w6)"
    using assms(6) read_i64s_run [of ?w5 ?c v] by simp
  moreover have "length v = length u" using assms(7,8) by simp
  ultimately have r6: "read_i64s ?c (length u) ?w5 = (Inr v, ?w6)" by simp
  show ?thesis
    unfolding recv_two_vecs_def
    by (simp add: bindE_def accept_def close_def log_event_def r1 r2 r3 d r4 r5 r6 returnE_def)
qed


subsection \<open>Comprehensions\<close>

lemma comprehension_map:
  "\<forall>i\<in>set ns. g i = Inr (h i) \<Longrightarrow> comprehension ns g = Inr (map h ns)"
  by (induction ns) (simp_all add: bindS_def)

lemma length_vops [simp]:
  "length (vadd xs ys) = min (length xs) (length ys)"
  "length (vsub xs ys) = min (length xs) (length ys)"
  "length (vneg xs) = length xs"
  by (simp_all add: vadd_def vsub_def vneg_def)

lemma nth_vops [simp]:
  "i < length xs \<Longrightarrow> i < length ys \<Longrightarrow> vadd xs ys ! i = xs ! i + ys ! i"
  "i < length xs \<Longrightarrow> i < length ys \<Longrightarrow> vsub xs ys ! i = xs ! i - ys ! i"
  "i < length xs \<Longrightarrow> vneg xs ! i = - (xs ! i)"
  by (simp_all add: vadd_def vsub_def vneg_def)

lemma comprehension_sub:
  assumes "length xs = n" "length ys = n"
  shows "comprehension [0..<n] (\<lambda>i. bindS (getitem xs i) (\<lambda>x. bindS (getitem ys i) (\<lambda>y. Inr (x - y))))
           = Inr (vsub xs ys)"
proof -
  have "comprehension [0..<n] (\<lambda>i. bindS (getitem xs i) (\<lambda>x. bindS (getitem ys i) (\<lambda>y. Inr (x - y))))
          = Inr (map (\<lambda>i. xs ! i - ys ! i) [0..<n])"
    using assms by (intro comprehension_map) (simp add: getitem_def bindS_def)
  moreover have "map (\<lambda>i. xs ! i - ys ! i) [0..<n] = vsub xs ys"
    using assms by (intro nth_equalityI) simp_all
  ultimately show ?thesis by simp
qed

lemma comprehension_add:
  assumes "length xs = n" "length ys = n"
  shows "comprehension [0..<n] (\<lambda>i. bindS (getitem xs i) (\<lambda>x. bindS (getitem ys i) (\<lambda>y. Inr (x + y))))
           = Inr (vadd xs ys)"
proof -
  have "comprehension [0..<n] (\<lambda>i. bindS (getitem xs i) (\<lambda>x. bindS (getitem ys i) (\<lambda>y. Inr (x + y))))
          = Inr (map (\<lambda>i. xs ! i + ys ! i) [0..<n])"
    using assms by (intro comprehension_map) (simp add: getitem_def bindS_def)
  moreover have "map (\<lambda>i. xs ! i + ys ! i) [0..<n] = vadd xs ys"
    using assms by (intro nth_equalityI) simp_all
  ultimately show ?thesis by simp
qed

lemma comprehension_neg:
  assumes "length xs = n"
  shows "comprehension [0..<n] (\<lambda>i. bindS (getitem xs i) (\<lambda>x. Inr (- x))) = Inr (vneg xs)"
proof -
  have "comprehension [0..<n] (\<lambda>i. bindS (getitem xs i) (\<lambda>x. Inr (- x)))
          = Inr (map (\<lambda>i. - (xs ! i)) [0..<n])"
    using assms by (intro comprehension_map) (simp add: getitem_def bindS_def)
  moreover have "map (\<lambda>i. - (xs ! i)) [0..<n] = vneg xs"
    using assms by (intro nth_equalityI) simp_all
  ultimately show ?thesis by simp
qed

subsection \<open>One cross-term\<close>

lemma dta_cross_run_X:
  assumes len: "length x = n" "length a_i = n" "length b_i = n" "length up = n" "length vp = n"
    and n: "int n < 4294967296"
    and hdr: "in_i64 sid" "0 \<le> tag" "tag \<le> 255"
    and mine: "list_all in_i64 (vsub x a_i)" "list_all in_i64 (vneg b_i)"
    and peer: "list_all in_i64 up" "list_all in_i64 vp"
    and inb: "inbound w (PeerIn tag) = residual_bytes sid tag up vp @ rest"
  shows "dta_cross role sid tag True x a_i b_i c_i w
           = (Inr (let u = vadd (vsub x a_i) up; v = vadd (vneg b_i) vp
                   in if role = RoleA then dot u b_i + dot a_i v + c_i
                      else dot u b_i + dot a_i v + dot u v + c_i),
              w\<lparr>trace := trace w @ residual_events sid tag (vsub x a_i) (vneg b_i)
                             @ [Accept (PeerIn tag), Close (PeerIn tag)],
                 inbound := (inbound w)(PeerIn tag := rest)\<rparr>)"
proof -
  let ?um = "vsub x a_i" and ?vm = "vneg b_i"
  let ?w1 = "w\<lparr>trace := trace w @ residual_events sid tag ?um ?vm\<rparr>"
  have s: "send_two_vecs sid tag ?um ?vm w = (Inr (), ?w1)"
    using hdr mine by (rule send_two_vecs_run)
  have r: "recv_two_vecs sid tag (int n) ?w1
             = (Inr (up, vp), ?w1\<lparr>trace := trace ?w1 @ [Accept (PeerIn tag), Close (PeerIn tag)],
                                   inbound := (inbound ?w1)(PeerIn tag := rest)\<rparr>)"
    using inb hdr peer len n by (intro recv_two_vecs_run) simp_all
  have c1: "comprehension [0..<n] (\<lambda>i. bindS (getitem x i) (\<lambda>x. bindS (getitem a_i i) (\<lambda>a. Inr (x - a))))
              = Inr ?um" using len by (intro comprehension_sub) simp_all
  have c2: "comprehension [0..<n] (\<lambda>i. bindS (getitem b_i i) (\<lambda>b. Inr (- b))) = Inr ?vm"
    using len by (intro comprehension_neg) simp_all
  have c3: "comprehension [0..<n] (\<lambda>i. bindS (getitem ?um i) (\<lambda>p. bindS (getitem up i) (\<lambda>q. Inr (p + q))))
              = Inr (vadd ?um up)" using len by (intro comprehension_add) simp_all
  have c4: "comprehension [0..<n] (\<lambda>i. bindS (getitem ?vm i) (\<lambda>p. bindS (getitem vp i) (\<lambda>q. Inr (p + q))))
              = Inr (vadd ?vm vp)" using len by (intro comprehension_add) simp_all
  show ?thesis
    unfolding dta_cross_def len(1) Let_def
    by (simp add: c1 c2 c3 c4 bindE_def s r returnE_def)
qed

lemma dta_cross_run_Y:
  assumes len: "length y = n" "length a_i = n" "length b_i = n" "length up = n" "length vp = n"
    and n: "int n < 4294967296"
    and hdr: "in_i64 sid" "0 \<le> tag" "tag \<le> 255"
    and mine: "list_all in_i64 (vneg a_i)" "list_all in_i64 (vsub y b_i)"
    and peer: "list_all in_i64 up" "list_all in_i64 vp"
    and inb: "inbound w (PeerIn tag) = residual_bytes sid tag up vp @ rest"
  shows "dta_cross role sid tag False y a_i b_i c_i w
           = (Inr (let u = vadd (vneg a_i) up; v = vadd (vsub y b_i) vp
                   in if role = RoleA then dot u b_i + dot a_i v + c_i
                      else dot u b_i + dot a_i v + dot u v + c_i),
              w\<lparr>trace := trace w @ [Accept (PeerIn tag), Close (PeerIn tag)]
                             @ residual_events sid tag (vneg a_i) (vsub y b_i),
                 inbound := (inbound w)(PeerIn tag := rest)\<rparr>)"
proof -
  let ?um = "vneg a_i" and ?vm = "vsub y b_i"
  let ?w1 = "w\<lparr>trace := trace w @ [Accept (PeerIn tag), Close (PeerIn tag)],
               inbound := (inbound w)(PeerIn tag := rest)\<rparr>"
  have r: "recv_two_vecs sid tag (int n) w = (Inr (up, vp), ?w1)"
    using inb hdr peer len n by (intro recv_two_vecs_run) simp_all
  have s: "send_two_vecs sid tag ?um ?vm ?w1
             = (Inr (), ?w1\<lparr>trace := trace ?w1 @ residual_events sid tag ?um ?vm\<rparr>)"
    using hdr mine by (rule send_two_vecs_run)
  have c1: "comprehension [0..<n] (\<lambda>i. bindS (getitem a_i i) (\<lambda>a. Inr (- a))) = Inr ?um"
    using len by (intro comprehension_neg) simp_all
  have c2: "comprehension [0..<n] (\<lambda>i. bindS (getitem y i) (\<lambda>y. bindS (getitem b_i i) (\<lambda>b. Inr (y - b))))
              = Inr ?vm" using len by (intro comprehension_sub) simp_all
  have c3: "comprehension [0..<n] (\<lambda>i. bindS (getitem ?um i) (\<lambda>p. bindS (getitem up i) (\<lambda>q. Inr (p + q))))
              = Inr (vadd ?um up)" using len by (intro comprehension_add) simp_all
  have c4: "comprehension [0..<n] (\<lambda>i. bindS (getitem ?vm i) (\<lambda>p. bindS (getitem vp i) (\<lambda>q. Inr (p + q))))
              = Inr (vadd ?vm vp)" using len by (intro comprehension_add) simp_all
  show ?thesis
    unfolding dta_cross_def len(1) Let_def
    by (simp add: c1 c2 c3 c4 bindE_def s r returnE_def)
qed

subsection \<open>Channels a step logs on\<close>

lemma logsD: "logs S m \<Longrightarrow> \<exists>es. trace (snd (m w)) = trace w @ es \<and> chan_of ` set es \<subseteq> S"
  unfolding logs_def by (rule spec)

lemma logsI: "(\<And>w. \<exists>es. trace (snd (m w)) = trace w @ es \<and> chan_of ` set es \<subseteq> S) \<Longrightarrow> logs S m"
  unfolding logs_def by (rule allI)

lemma logs_returnE: "logs S (returnE x)"
  by (rule logsI) (simp add: returnE_def)

lemma logs_raise: "logs S (raise e)"
  by (rule logsI) (simp add: raise_def)

lemma logs_bindE:
  assumes "logs S m" "\<And>x. logs S (f x)"
  shows "logs S (bindE m f)"
proof (rule logsI)
  fix w
  obtain r w1 where m: "m w = (r, w1)" by (cases "m w")
  obtain es where "trace (snd (m w)) = trace w @ es" and e2: "chan_of ` set es \<subseteq> S"
    using logsD [OF assms(1), of w] by (elim exE conjE)
  then have e1: "trace w1 = trace w @ es" by (simp add: m)
  show "\<exists>es. trace (snd (bindE m f w)) = trace w @ es \<and> chan_of ` set es \<subseteq> S"
  proof (cases r)
    case (Inl err)
    have "trace (snd (bindE m f w)) = trace w @ es" by (simp add: bindE_def m Inl e1)
    with e2 show ?thesis by (intro exI [of _ es] conjI)
  next
    case (Inr x)
    obtain fs where f1: "trace (snd (f x w1)) = trace w1 @ fs" and f2: "chan_of ` set fs \<subseteq> S"
      using logsD [OF assms(2), of x w1] by (elim exE conjE)
    have "trace (snd (bindE m f w)) = trace w @ (es @ fs)" by (simp add: bindE_def m Inr e1 f1)
    moreover have "chan_of ` set (es @ fs) \<subseteq> S" using e2 f2 by (simp add: image_Un)
    ultimately show ?thesis by (intro exI [of _ "es @ fs"] conjI)
  qed
qed

lemma logs_mono:
  assumes "logs S m" "S \<subseteq> T"
  shows "logs T m"
proof (rule logsI)
  fix w
  obtain es where e1: "trace (snd (m w)) = trace w @ es" and e2: "chan_of ` set es \<subseteq> S"
    using logsD [OF assms(1), of w] by (elim exE conjE)
  from e2 assms(2) have "chan_of ` set es \<subseteq> T" by (rule subset_trans)
  with e1 show "\<exists>es. trace (snd (m w)) = trace w @ es \<and> chan_of ` set es \<subseteq> T"
    by (intro exI [of _ es] conjI)
qed

lemma logs_if: "logs S a \<Longrightarrow> logs S b \<Longrightarrow> logs S (if c then a else b)" by simp
lemma logs_case_prod: "(\<And>a b. logs S (f a b)) \<Longrightarrow> logs S (case p of (a, b) \<Rightarrow> f a b)"
  by (cases p) simp
lemma logs_liftE: "logs S (liftE r)" by (cases r) (simp_all add: logs_raise logs_returnE)
lemma logs_log_event: "chan_of ev \<in> S \<Longrightarrow> logs S (log_event ev)"
  by (rule logsI) (simp add: log_event_def)
lemma logs_connect: "ch \<in> S \<Longrightarrow> logs S (connect ch)" by (simp add: connect_def logs_log_event)
lemma logs_accept: "ch \<in> S \<Longrightarrow> logs S (accept ch)" by (simp add: accept_def logs_log_event)
lemma logs_close: "ch \<in> S \<Longrightarrow> logs S (close ch)" by (simp add: close_def logs_log_event)
lemma logs_sendall: "ch \<in> S \<Longrightarrow> logs S (sendall ch p)"
  unfolding sendall_def by (intro logs_bindE logs_liftE logs_log_event) simp
lemma logs_recv_exact: "logs S (recv_exact ch n)"
  by (rule logsI) (simp add: recv_exact_eq)
lemma logs_read_u8: "logs S (read_u8 ch)"
  unfolding read_u8_def by (intro logs_bindE logs_recv_exact logs_returnE)
lemma logs_read_u32: "logs S (read_u32 ch)"
  unfolding read_u32_def by (intro logs_bindE logs_recv_exact logs_returnE)
lemma logs_read_i64: "logs S (read_i64 ch)"
  unfolding read_i64_def by (intro logs_bindE logs_recv_exact logs_returnE)
lemma logs_send_i64s: "ch \<in> S \<Longrightarrow> logs S (send_i64s ch vs)"
proof (induction vs)
  case Nil
  show ?case by (simp add: logs_returnE)
next
  case (Cons v vs)
  then show ?case by (simp add: logs_bindE logs_sendall)
qed
lemma logs_read_i64s: "logs S (read_i64s ch n)"
proof (induction n)
  case 0
  show ?case by (simp add: logs_returnE)
next
  case (Suc n)
  then show ?case by (simp add: logs_bindE logs_read_i64 logs_returnE)
qed

lemma logs_send_two_vecs: "logs {PeerOut tag} (send_two_vecs sid tag u v)"
  unfolding send_two_vecs_def
  by (intro logs_bindE logs_connect logs_sendall logs_send_i64s logs_close) simp_all

lemma logs_recv_two_vecs: "logs {PeerIn tag} (recv_two_vecs sid tag d)"
  unfolding recv_two_vecs_def
  by (intro logs_bindE logs_accept logs_close logs_read_i64 logs_read_u8 logs_read_u32
        logs_read_i64s logs_if logs_raise logs_returnE) simp_all

lemma logs_fetch_share: "logs {Dealer} (fetch_share d)"
  unfolding fetch_share_def
  by (intro logs_bindE logs_connect logs_sendall logs_close logs_read_i64 logs_read_u8
        logs_read_u32 logs_read_i64s logs_if logs_raise logs_returnE) simp_all

lemma logs_dta_cross: "logs {PeerOut tag, PeerIn tag} (dta_cross role sid tag x my a b c)"
  unfolding dta_cross_def Let_def
  by (intro logs_bindE logs_if logs_liftE logs_returnE logs_case_prod
        logs_mono [OF logs_send_two_vecs] logs_mono [OF logs_recv_two_vecs]) simp_all

lemma sent_other_chans: "chan_of ` set es \<subseteq> S \<Longrightarrow> ch \<notin> S \<Longrightarrow> sent ch es = []"
proof (induction es)
  case Nil
  show ?case by simp
next
  case (Cons ev es)
  then have t: "sent ch es = []" and c: "chan_of ev \<noteq> ch" by auto
  show ?case using t c by (cases ev) simp_all
qed

section \<open>Party: what a READ and a WRITE do\<close>

lemma fetch_share_run:
  assumes inb: "inbound w Dealer = share_bytes dim sid a b c @ rest"
    and dim: "0 \<le> dim" "dim < 4294967296"
    and len: "length a = nat dim" "length b = nat dim"
    and rng: "in_i64 sid" "list_all in_i64 a" "list_all in_i64 b" "in_i64 c"
  shows "fetch_share dim w
           = (Inr (sid, a, b, c),
              w\<lparr>trace := trace w @ fetch_events dim, inbound := (inbound w)(Dealer := rest)\<rparr>)"
proof -
  let ?w0 = "w\<lparr>trace := trace w @ [Connect Dealer, Send Dealer (enc_u8 OP_REQUEST),
                                       Send Dealer (enc_u32 dim)]\<rparr>"
  let ?w1 = "?w0\<lparr>inbound := (inbound w)(Dealer := enc_u32 dim @ enc_i64 sid @ enc_i64s a @ enc_i64s b @ enc_i64 c @ rest)\<rparr>"
  let ?w2 = "?w0\<lparr>inbound := (inbound w)(Dealer := enc_i64 sid @ enc_i64s a @ enc_i64s b @ enc_i64 c @ rest)\<rparr>"
  let ?w3 = "?w0\<lparr>inbound := (inbound w)(Dealer := enc_i64s a @ enc_i64s b @ enc_i64 c @ rest)\<rparr>"
  let ?w4 = "?w0\<lparr>inbound := (inbound w)(Dealer := enc_i64s b @ enc_i64 c @ rest)\<rparr>"
  let ?w5 = "?w0\<lparr>inbound := (inbound w)(Dealer := enc_i64 c @ rest)\<rparr>"
  let ?w6 = "?w0\<lparr>inbound := (inbound w)(Dealer := rest)\<rparr>"
  have d: "dim mod 4294967296 = dim" using dim by simp
  have r1: "read_u8 Dealer ?w0 = (Inr OP_RESPONSE, ?w1)"
    using inb read_u8_run [of ?w0 Dealer OP_RESPONSE] by (simp add: share_bytes_def OP_RESPONSE_def)
  have r2: "read_u32 Dealer ?w1 = (Inr dim, ?w2)"
    using read_u32_run [of ?w1 Dealer dim] d by simp
  have r3: "read_i64 Dealer ?w2 = (Inr sid, ?w3)"
    using rng(1) read_i64_run [of ?w2 Dealer sid] by simp
  have "read_i64s Dealer (length a) ?w3 = (Inr a, ?w4)"
    using rng(2) read_i64s_run [of ?w3 Dealer a] by simp
  then have r4: "read_i64s Dealer (nat dim) ?w3 = (Inr a, ?w4)" by (simp only: len)
  have "read_i64s Dealer (length b) ?w4 = (Inr b, ?w5)"
    using rng(3) read_i64s_run [of ?w4 Dealer b] by simp
  then have r5: "read_i64s Dealer (nat dim) ?w4 = (Inr b, ?w5)" by (simp only: len)
  have r6: "read_i64 Dealer ?w5 = (Inr c, ?w6)"
    using rng(4) read_i64_run [of ?w5 Dealer c "rest"] by simp
  have p: "pack_u8 OP_REQUEST = Inr (enc_u8 OP_REQUEST)"
    by (simp add: pack_u8_eq OP_REQUEST_def)
  show ?thesis
    unfolding fetch_share_def
    by (simp add: bindE_def connect_def close_def log_event_def p pack_u32_eq sendall_Inr
          r1 r2 r3 r4 r5 r6 returnE_def fetch_events_def)
qed


lemma serve_read_run_A:
  fixes w :: party
  assumes n: "rows = int n" "int n < 4294967296"
    and mem: "length (A_share w) = n"
    and e: "length e = n" "list_all in_i64 e"
    and tri: "length a = n" "length b = n" "in_i64 sid" "list_all in_i64 a" "list_all in_i64 b"
      "in_i64 c"
    and p1: "length up1 = n" "length vp1 = n" "list_all in_i64 up1" "list_all in_i64 vp1"
    and p16: "length up16 = n" "length vp16 = n" "list_all in_i64 up16" "list_all in_i64 vp16"
    and mine: "list_all in_i64 (vsub (A_share w) a)" "list_all in_i64 (vneg b)"
      "list_all in_i64 (vneg a)" "list_all in_i64 (vsub e b)"
    and inbU: "inbound w User = enc_u32 rows @ enc_i64s e @ restU"
    and inbD: "inbound w Dealer = share_bytes rows sid a b c @ restD"
    and inb1: "inbound w (PeerIn 1) = residual_bytes sid 1 up1 vp1 @ rest1"
    and inb16: "inbound w (PeerIn 16) = residual_bytes sid 16 up16 vp16 @ rest16"
  shows "serve_read RoleA rows w
           = sendall User (pack_i64 (read_value RoleA (A_share w) e a b c up1 vp1 up16 vp16))
               (w\<lparr>trace := trace w @ read_events RoleA rows sid (A_share w) e a b,
                  inbound := (inbound w)(User := restU, Dealer := restD,
                                         PeerIn 1 := rest1, PeerIn 16 := rest16)\<rparr>)"
proof -
  let ?ev1 = "residual_events sid 1 (vsub (A_share w) a) (vneg b) @ [Accept (PeerIn 1), Close (PeerIn 1)]"
  let ?ev16 = "[Accept (PeerIn 16), Close (PeerIn 16)] @ residual_events sid 16 (vneg a) (vsub e b)"
  let ?wa = "w\<lparr>inbound := (inbound w)(User := enc_i64s e @ restU)\<rparr>"
  let ?wU = "w\<lparr>inbound := (inbound w)(User := restU)\<rparr>"
  let ?wD = "w\<lparr>trace := trace w @ fetch_events rows,
               inbound := (inbound w)(User := restU, Dealer := restD)\<rparr>"
  let ?w1 = "w\<lparr>trace := trace w @ fetch_events rows @ ?ev1,
               inbound := (inbound w)(User := restU, Dealer := restD, PeerIn 1 := rest1)\<rparr>"
  let ?w16 = "w\<lparr>trace := trace w @ fetch_events rows @ ?ev1 @ ?ev16,
                inbound := (inbound w)(User := restU, Dealer := restD, PeerIn 1 := rest1,
                                       PeerIn 16 := rest16)\<rparr>"
  have d: "rows mod 4294967296 = rows" "nat rows = n" "0 \<le> rows" "rows < 4294967296"
    using n by simp_all
  have s1: "read_u32 User w = (Inr rows, ?wa)"
    using read_u32_run [of w User rows] inbU d by simp
  have "read_i64s User (length e) ?wa = (Inr e, ?wU)"
    using e(2) read_i64s_run [of ?wa User e restU] by simp
  then have s2: "read_i64s User n ?wa = (Inr e, ?wU)" by (simp only: e(1))
  have "fetch_share rows ?wU
          = (Inr (sid, a, b, c),
             ?wU\<lparr>trace := trace ?wU @ fetch_events rows, inbound := (inbound ?wU)(Dealer := restD)\<rparr>)"
    by (rule fetch_share_run) (use inbD tri d in simp_all)
  then have s3: "fetch_share rows ?wU = (Inr (sid, a, b, c), ?wD)" by simp
  have "dta_cross RoleA sid 1 True (A_share w) a b c ?wD
          = (Inr (cross_value RoleA (vadd (vsub (A_share w) a) up1) (vadd (vneg b) vp1) a b c),
             ?wD\<lparr>trace := trace ?wD @ ?ev1, inbound := (inbound ?wD)(PeerIn 1 := rest1)\<rparr>)"
    using dta_cross_run_X [where n = n and up = up1 and vp = vp1 and rest = rest1 and w = ?wD
        and sid = sid and tag = 1 and a_i = a and b_i = b and c_i = c and role = RoleA]
      n(2) mem e tri p1 mine inb1
    by (simp add: Let_def cross_value_def)
  then have s5: "dta_cross RoleA sid 1 True (A_share w) a b c ?wD = (Inr (cross_value RoleA (vadd (vsub (A_share w) a) up1) (vadd (vneg b) vp1) a b c), ?w1)" by simp
  have "dta_cross RoleA sid 16 False e a b c ?w1
          = (Inr (cross_value RoleA (vadd (vneg a) up16) (vadd (vsub e b) vp16) a b c),
             ?w1\<lparr>trace := trace ?w1 @ ?ev16, inbound := (inbound ?w1)(PeerIn 16 := rest16)\<rparr>)"
    using dta_cross_run_Y [where n = n and up = up16 and vp = vp16 and rest = rest16 and w = ?w1
        and sid = sid and tag = 16 and a_i = a and b_i = b and c_i = c and role = RoleA]
      n(2) mem e tri p16 mine inb16
    by (simp add: Let_def cross_value_def)
  then have s6: "dta_cross RoleA sid 16 False e a b c ?w1 = (Inr (cross_value RoleA (vadd (vneg a) up16) (vadd (vsub e b) vp16) a b c), ?w16)" by simp
  show ?thesis
    unfolding serve_read_def
    by (simp add: bindE_def s1 d s2 s3 get_A_share_def s5 s6 Let_def read_value_def
          read_events_def)
qed

lemma serve_read_run_B:
  fixes w :: party
  assumes n: "rows = int n" "int n < 4294967296"
    and mem: "length (A_share w) = n"
    and e: "length e = n" "list_all in_i64 e"
    and tri: "length a = n" "length b = n" "in_i64 sid" "list_all in_i64 a" "list_all in_i64 b"
      "in_i64 c"
    and p1: "length up1 = n" "length vp1 = n" "list_all in_i64 up1" "list_all in_i64 vp1"
    and p16: "length up16 = n" "length vp16 = n" "list_all in_i64 up16" "list_all in_i64 vp16"
    and mine: "list_all in_i64 (vsub (A_share w) a)" "list_all in_i64 (vneg b)"
      "list_all in_i64 (vneg a)" "list_all in_i64 (vsub e b)"
    and inbU: "inbound w User = enc_u32 rows @ enc_i64s e @ restU"
    and inbD: "inbound w Dealer = share_bytes rows sid a b c @ restD"
    and inb1: "inbound w (PeerIn 1) = residual_bytes sid 1 up1 vp1 @ rest1"
    and inb16: "inbound w (PeerIn 16) = residual_bytes sid 16 up16 vp16 @ rest16"
  shows "serve_read RoleB rows w
           = sendall User (pack_i64 (read_value RoleB (A_share w) e a b c up1 vp1 up16 vp16))
               (w\<lparr>trace := trace w @ read_events RoleB rows sid (A_share w) e a b,
                  inbound := (inbound w)(User := restU, Dealer := restD,
                                         PeerIn 1 := rest1, PeerIn 16 := rest16)\<rparr>)"
proof -
  let ?ev1 = "Accept (PeerIn 1) # Close (PeerIn 1) # residual_events sid 1 (vneg a) (vsub e b)"
  let ?ev16 = "residual_events sid 16 (vsub (A_share w) a) (vneg b) @ [Accept (PeerIn 16), Close (PeerIn 16)]"
  let ?wa = "w\<lparr>inbound := (inbound w)(User := enc_i64s e @ restU)\<rparr>"
  let ?wU = "w\<lparr>inbound := (inbound w)(User := restU)\<rparr>"
  let ?wD = "w\<lparr>trace := trace w @ fetch_events rows,
               inbound := (inbound w)(User := restU, Dealer := restD)\<rparr>"
  let ?w1 = "w\<lparr>trace := trace w @ fetch_events rows @ ?ev1,
               inbound := (inbound w)(User := restU, Dealer := restD, PeerIn 1 := rest1)\<rparr>"
  let ?w16 = "w\<lparr>trace := trace w @ fetch_events rows @ ?ev1 @ ?ev16,
                inbound := (inbound w)(User := restU, Dealer := restD, PeerIn 1 := rest1,
                                       PeerIn 16 := rest16)\<rparr>"
  have d: "rows mod 4294967296 = rows" "nat rows = n" "0 \<le> rows" "rows < 4294967296"
    using n by simp_all
  have s1: "read_u32 User w = (Inr rows, ?wa)"
    using read_u32_run [of w User rows] inbU d by simp
  have "read_i64s User (length e) ?wa = (Inr e, ?wU)"
    using e(2) read_i64s_run [of ?wa User e restU] by simp
  then have s2: "read_i64s User n ?wa = (Inr e, ?wU)" by (simp only: e(1))
  have "fetch_share rows ?wU
          = (Inr (sid, a, b, c),
             ?wU\<lparr>trace := trace ?wU @ fetch_events rows, inbound := (inbound ?wU)(Dealer := restD)\<rparr>)"
    by (rule fetch_share_run) (use inbD tri d in simp_all)
  then have s3: "fetch_share rows ?wU = (Inr (sid, a, b, c), ?wD)" by simp
  have "dta_cross RoleB sid 1 False e a b c ?wD
          = (Inr (cross_value RoleB (vadd (vneg a) up1) (vadd (vsub e b) vp1) a b c),
             ?wD\<lparr>trace := trace ?wD @ ?ev1, inbound := (inbound ?wD)(PeerIn 1 := rest1)\<rparr>)"
    using dta_cross_run_Y [where n = n and up = up1 and vp = vp1 and rest = rest1 and w = ?wD
        and sid = sid and tag = 1 and a_i = a and b_i = b and c_i = c and role = RoleB]
      n(2) mem e tri p1 mine inb1
    by (simp add: Let_def cross_value_def)
  then have s5: "dta_cross RoleB sid 1 False e a b c ?wD = (Inr (cross_value RoleB (vadd (vneg a) up1) (vadd (vsub e b) vp1) a b c), ?w1)" by simp
  have "dta_cross RoleB sid 16 True (A_share w) a b c ?w1
          = (Inr (cross_value RoleB (vadd (vsub (A_share w) a) up16) (vadd (vneg b) vp16) a b c),
             ?w1\<lparr>trace := trace ?w1 @ ?ev16, inbound := (inbound ?w1)(PeerIn 16 := rest16)\<rparr>)"
    using dta_cross_run_X [where n = n and up = up16 and vp = vp16 and rest = rest16 and w = ?w1
        and sid = sid and tag = 16 and a_i = a and b_i = b and c_i = c and role = RoleB]
      n(2) mem e tri p16 mine inb16
    by (simp add: Let_def cross_value_def)
  then have s6: "dta_cross RoleB sid 16 True (A_share w) a b c ?w1 = (Inr (cross_value RoleB (vadd (vsub (A_share w) a) up16) (vadd (vneg b) vp16) a b c), ?w16)" by simp
  show ?thesis
    unfolding serve_read_def
    by (simp add: bindE_def s1 d s2 s3 get_A_share_def s5 s6 Let_def read_value_def
          read_events_def)
qed


lemma serve_read_run:
  fixes w :: party
  assumes n: "rows = int n" "int n < 4294967296"
    and mem: "length (A_share w) = n"
    and e: "length e = n" "list_all in_i64 e"
    and tri: "length a = n" "length b = n" "in_i64 sid" "list_all in_i64 a" "list_all in_i64 b"
      "in_i64 c"
    and p1: "length up1 = n" "length vp1 = n" "list_all in_i64 up1" "list_all in_i64 vp1"
    and p16: "length up16 = n" "length vp16 = n" "list_all in_i64 up16" "list_all in_i64 vp16"
    and mine: "list_all in_i64 (vsub (A_share w) a)" "list_all in_i64 (vneg b)"
      "list_all in_i64 (vneg a)" "list_all in_i64 (vsub e b)"
    and inbU: "inbound w User = enc_u32 rows @ enc_i64s e @ restU"
    and inbD: "inbound w Dealer = share_bytes rows sid a b c @ restD"
    and inb1: "inbound w (PeerIn 1) = residual_bytes sid 1 up1 vp1 @ rest1"
    and inb16: "inbound w (PeerIn 16) = residual_bytes sid 16 up16 vp16 @ rest16"
  shows "serve_read role rows w
           = sendall User (pack_i64 (read_value role (A_share w) e a b c up1 vp1 up16 vp16))
               (w\<lparr>trace := trace w @ read_events role rows sid (A_share w) e a b,
                  inbound := (inbound w)(User := restU, Dealer := restD,
                                         PeerIn 1 := rest1, PeerIn 16 := rest16)\<rparr>)"
proof (cases role)
  case RoleA
  show ?thesis unfolding RoleA using assms by (rule serve_read_run_A)
next
  case RoleB
  show ?thesis unfolding RoleB using assms by (rule serve_read_run_B)
qed

lemma sendall_pack_i64:
  "sendall ch (pack_i64 x) w
     = (if in_i64 x then (Inr (), w\<lparr>trace := trace w @ [Send ch (enc_i64 x)]\<rparr>)
        else (Inl StructError, w))"
  by (simp add: pack_i64_eq sendall_Inr sendall_Inl)

lemma serve_conn_read_run:
  fixes w :: party
  assumes n: "rows = int n" "int n < 4294967296"
    and mem: "length (A_share w) = n"
    and e: "length e = n" "list_all in_i64 e"
    and tri: "length a = n" "length b = n" "in_i64 sid" "list_all in_i64 a" "list_all in_i64 b"
      "in_i64 c"
    and p1: "length up1 = n" "length vp1 = n" "list_all in_i64 up1" "list_all in_i64 vp1"
    and p16: "length up16 = n" "length vp16 = n" "list_all in_i64 up16" "list_all in_i64 vp16"
    and mine: "list_all in_i64 (vsub (A_share w) a)" "list_all in_i64 (vneg b)"
      "list_all in_i64 (vneg a)" "list_all in_i64 (vsub e b)"
    and inbU: "inbound w User = request_bytes OP_READ_SECURE e @ restU"
    and inbD: "inbound w Dealer = share_bytes rows sid a b c @ restD"
    and inb1: "inbound w (PeerIn 1) = residual_bytes sid 1 up1 vp1 @ rest1"
    and inb16: "inbound w (PeerIn 16) = residual_bytes sid 16 up16 vp16 @ rest16"
  shows "serve_conn role rows w
           = (if in_i64 (read_value role (A_share w) e a b c up1 vp1 up16 vp16)
              then (Inr (),
                    w\<lparr>trace := trace w @ read_events role rows sid (A_share w) e a b
                         @ [Send User (enc_i64 (read_value role (A_share w) e a b c up1 vp1 up16 vp16)),
                            Close User],
                      inbound := (inbound w)(User := restU, Dealer := restD,
                                             PeerIn 1 := rest1, PeerIn 16 := rest16)\<rparr>)
              else (Inl StructError,
                    w\<lparr>trace := trace w @ read_events role rows sid (A_share w) e a b @ [Close User],
                      inbound := (inbound w)(User := restU, Dealer := restD,
                                             PeerIn 1 := rest1, PeerIn 16 := rest16)\<rparr>))"
proof -
  let ?w0 = "w\<lparr>inbound := (inbound w)(User := enc_u32 rows @ enc_i64s e @ restU)\<rparr>"
  have op: "read_u8 User w = (Inr OP_READ_SECURE, ?w0)"
    using inbU n(1) e(1) read_u8_run [of w User OP_READ_SECURE]
    by (simp add: request_bytes_def OP_READ_SECURE_def)
  have "serve_read role rows ?w0
          = sendall User (pack_i64 (read_value role (A_share ?w0) e a b c up1 vp1 up16 vp16))
              (?w0\<lparr>trace := trace ?w0 @ read_events role rows sid (A_share ?w0) e a b,
                    inbound := (inbound ?w0)(User := restU, Dealer := restD,
                                            PeerIn 1 := rest1, PeerIn 16 := rest16)\<rparr>)"
    by (rule serve_read_run [where n = n]) (use assms in simp_all)
  then have rd: "serve_read role rows ?w0
          = sendall User (pack_i64 (read_value role (A_share w) e a b c up1 vp1 up16 vp16))
              (w\<lparr>trace := trace w @ read_events role rows sid (A_share w) e a b,
                 inbound := (inbound w)(User := restU, Dealer := restD,
                                        PeerIn 1 := rest1, PeerIn 16 := rest16)\<rparr>)"
    by simp
  have "serve_try role rows w = serve_read role rows ?w0"
    unfolding serve_try_def by (simp add: bindE_def op OP_READ_SECURE_def OP_WRITE_VEC_def)
  then show ?thesis
    unfolding serve_conn_def finallyE_def rd
    by (simp add: sendall_pack_i64 close_def log_event_def)
qed

lemma serve_conn_write_run:
  fixes w :: party
  assumes n: "rows = int n" "int n < 4294967296"
    and mem: "length (A_share w) = n"
    and vec: "length vec = n" "list_all in_i64 vec"
    and inbU: "inbound w User = request_bytes OP_WRITE_VEC vec @ restU"
  shows "serve_conn role rows w
           = (Inr (), w\<lparr>trace := trace w @ [Send User [79, 75], Close User],
                        inbound := (inbound w)(User := restU),
                        A_share := vadd (A_share w) vec\<rparr>)"
proof -
  let ?w0 = "w\<lparr>inbound := (inbound w)(User := enc_u32 rows @ enc_i64s vec @ restU)\<rparr>"
  let ?wa = "w\<lparr>inbound := (inbound w)(User := enc_i64s vec @ restU)\<rparr>"
  let ?wU = "w\<lparr>inbound := (inbound w)(User := restU)\<rparr>"
  have d: "rows mod 4294967296 = rows" "nat rows = n" using n by simp_all
  have op: "read_u8 User w = (Inr OP_WRITE_VEC, ?w0)"
    using inbU n(1) vec(1) read_u8_run [of w User OP_WRITE_VEC]
    by (simp add: request_bytes_def OP_WRITE_VEC_def)
  have s1: "read_u32 User ?w0 = (Inr rows, ?wa)"
    using read_u32_run [of ?w0 User rows] d by simp
  have "read_i64s User (length vec) ?wa = (Inr vec, ?wU)"
    using vec(2) read_i64s_run [of ?wa User vec restU] by simp
  then have s2: "read_i64s User n ?wa = (Inr vec, ?wU)" by (simp only: vec(1))
  have "accumulate [0..<length vec] vec ?wU
          = (Inr (), ?wU\<lparr>A_share := map (\<lambda>(x, y). x + y) (zip (A_share ?wU) vec)\<rparr>)"
    by (rule accumulate_run) (simp add: vec mem)
  then have s3: "accumulate [0..<n] vec ?wU = (Inr (), ?wU\<lparr>A_share := vadd (A_share w) vec\<rparr>)"
    by (simp add: vec(1) vadd_def)
  have "serve_try role rows w
          = (Inr (), w\<lparr>trace := trace w @ [Send User [79, 75]],
                       inbound := (inbound w)(User := restU),
                       A_share := vadd (A_share w) vec\<rparr>)"
    unfolding serve_try_def serve_write_def
    by (simp add: bindE_def op s1 d s2 s3 sendall_Inr)
  then show ?thesis
    unfolding serve_conn_def finallyE_def
    by (simp add: close_def log_event_def)
qed

section \<open>Exact arithmetic: products, residuals out of range\<close>

lemma dot_Nil: "dot [] ys = 0"
  by (simp add: dot_def)

lemma dot_Cons: "dot (x # xs) (y # ys) = x * y + dot xs ys"
  by (simp add: dot_def)

lemma dot_sum:
  "length xs = n \<Longrightarrow> length ys = n \<Longrightarrow> dot xs ys = (\<Sum>i<n. xs ! i * ys ! i)"
proof (induction xs arbitrary: ys n)
  case Nil
  then show ?case by (simp add: dot_def)
next
  case (Cons x xs)
  then obtain y ys' m where ys: "ys = y # ys'" and n: "n = Suc m"
    by (cases ys; cases n) auto
  have l: "length xs = m" "length ys' = m" using Cons.prems ys n by simp_all
  have "dot (x # xs) (y # ys') = x * y + (\<Sum>i<m. xs ! i * ys' ! i)"
    by (simp add: dot_Cons Cons.IH [OF l])
  also have "\<dots> = (\<Sum>i<Suc m. (x # xs) ! i * (y # ys') ! i)"
    by (simp add: sum.lessThan_Suc_shift del: sum.lessThan_Suc)
  finally show ?case by (simp only: ys n)
qed

lemma fst_bindE_Inl: "fst (m w) = Inl e \<Longrightarrow> fst (bindE m f w) = Inl e"
  by (cases "m w") (simp add: bindE_def)

lemma send_two_vecs_fail:
  assumes "in_i64 sid" "0 \<le> tag" "tag \<le> 255"
    and "\<not> (list_all in_i64 u \<and> list_all in_i64 v)"
  shows "fst (send_two_vecs sid tag u v w) = Inl StructError"
proof (cases "list_all in_i64 u")
  case False
  let ?w0 = "w\<lparr>trace := trace w @ [Connect (PeerOut tag), Send (PeerOut tag) (enc_i64 sid),
                Send (PeerOut tag) (enc_u8 tag), Send (PeerOut tag) (enc_u32 (int (length u)))]\<rparr>"
  have "send_two_vecs sid tag u v w
          = bindE (send_i64s (PeerOut tag) u) (\<lambda>_.
            bindE (sendall (PeerOut tag) (pack_u32 (int (length v)))) (\<lambda>_.
            bindE (send_i64s (PeerOut tag) v) (\<lambda>_. close (PeerOut tag)))) ?w0"
    using assms(1,2,3)
    by (simp add: send_two_vecs_def bindE_def connect_def log_event_def pack_i64_eq pack_u8_eq
          pack_u32_eq sendall_Inr)
  then show ?thesis by (simp only: fst_bindE_Inl [OF send_i64s_fail [OF False]])
next
  case True
  then have v: "\<not> list_all in_i64 v" using assms(4) by simp
  let ?w1 = "w\<lparr>trace := trace w @ [Connect (PeerOut tag), Send (PeerOut tag) (enc_i64 sid),
                Send (PeerOut tag) (enc_u8 tag), Send (PeerOut tag) (enc_u32 (int (length u)))]
                @ map (\<lambda>v. Send (PeerOut tag) (enc_i64 v)) u
                @ [Send (PeerOut tag) (enc_u32 (int (length v)))]\<rparr>"
  have "send_two_vecs sid tag u v w
          = bindE (send_i64s (PeerOut tag) v) (\<lambda>_. close (PeerOut tag)) ?w1"
    using assms(1,2,3) True
    by (simp add: send_two_vecs_def bindE_def connect_def log_event_def pack_i64_eq pack_u8_eq
          pack_u32_eq sendall_Inr send_i64s_run)
  then show ?thesis by (simp only: fst_bindE_Inl [OF send_i64s_fail [OF v]])
qed

lemma dta_cross_fail_X:
  assumes len: "length x = n" "length a_i = n" "length b_i = n"
    and hdr: "in_i64 sid" "0 \<le> tag" "tag \<le> 255"
    and out: "\<not> (list_all in_i64 (vsub x a_i) \<and> list_all in_i64 (vneg b_i))"
  shows "fst (dta_cross role sid tag True x a_i b_i c_i w) = Inl StructError"
proof -
  let ?um = "vsub x a_i" and ?vm = "vneg b_i"
  have c1: "comprehension [0..<n] (\<lambda>i. bindS (getitem x i) (\<lambda>x. bindS (getitem a_i i) (\<lambda>a. Inr (x - a))))
              = Inr ?um" using len by (intro comprehension_sub) simp_all
  have c2: "comprehension [0..<n] (\<lambda>i. bindS (getitem b_i i) (\<lambda>b. Inr (- b))) = Inr ?vm"
    using len by (intro comprehension_neg) simp_all
  have s: "fst (send_two_vecs sid tag ?um ?vm w) = Inl StructError"
    using hdr out by (rule send_two_vecs_fail)
  have "fst (bindE (send_two_vecs sid tag ?um ?vm) (\<lambda>_.
               bindE (recv_two_vecs sid tag (int n)) (\<lambda>(u_part_pe, v_part_pe).
               returnE (?um, ?vm, u_part_pe, v_part_pe))) w) = Inl StructError"
    using s by (rule fst_bindE_Inl)
  then have "fst (bindE (bindE (send_two_vecs sid tag ?um ?vm) (\<lambda>_.
               bindE (recv_two_vecs sid tag (int n)) (\<lambda>(u_part_pe, v_part_pe).
               returnE (?um, ?vm, u_part_pe, v_part_pe)))) k w) = Inl StructError" for k :: "int list \<times> int list \<times> int list \<times> int list \<Rightarrow> ('a world_scheme, int) io"
    by (rule fst_bindE_Inl)
  then show ?thesis
    unfolding dta_cross_def len(1) Let_def
    by (simp add: c1 c2)
qed

lemma dta_cross_fail_Y:
  assumes len: "length y = n" "length a_i = n" "length b_i = n" "length up = n" "length vp = n"
    and n: "int n < 4294967296"
    and hdr: "in_i64 sid" "0 \<le> tag" "tag \<le> 255"
    and peer: "list_all in_i64 up" "list_all in_i64 vp"
    and inb: "inbound w (PeerIn tag) = residual_bytes sid tag up vp @ rest"
    and out: "\<not> (list_all in_i64 (vneg a_i) \<and> list_all in_i64 (vsub y b_i))"
  shows "fst (dta_cross role sid tag False y a_i b_i c_i w) = Inl StructError"
proof -
  let ?um = "vneg a_i" and ?vm = "vsub y b_i"
  let ?w1 = "w\<lparr>trace := trace w @ [Accept (PeerIn tag), Close (PeerIn tag)],
               inbound := (inbound w)(PeerIn tag := rest)\<rparr>"
  have r: "recv_two_vecs sid tag (int n) w = (Inr (up, vp), ?w1)"
    using inb hdr peer len n by (intro recv_two_vecs_run) simp_all
  have c1: "comprehension [0..<n] (\<lambda>i. bindS (getitem a_i i) (\<lambda>a. Inr (- a))) = Inr ?um"
    using len by (intro comprehension_neg) simp_all
  have c2: "comprehension [0..<n] (\<lambda>i. bindS (getitem y i) (\<lambda>y. bindS (getitem b_i i) (\<lambda>b. Inr (y - b))))
              = Inr ?vm" using len by (intro comprehension_sub) simp_all
  have s: "fst (send_two_vecs sid tag ?um ?vm ?w1) = Inl StructError"
    using hdr out by (rule send_two_vecs_fail)
  have "fst (bindE (recv_two_vecs sid tag (int n)) (\<lambda>(u_part_pe, v_part_pe).
               bindE (send_two_vecs sid tag ?um ?vm) (\<lambda>_.
               returnE (?um, ?vm, u_part_pe, v_part_pe))) w) = Inl StructError"
  proof -
    have "bindE (recv_two_vecs sid tag (int n)) (\<lambda>(u_part_pe, v_part_pe).
               bindE (send_two_vecs sid tag ?um ?vm) (\<lambda>_.
               returnE (?um, ?vm, u_part_pe, v_part_pe))) w
            = bindE (send_two_vecs sid tag ?um ?vm) (\<lambda>_. returnE (?um, ?vm, up, vp)) ?w1"
      by (simp add: bindE_def r)
    moreover have "fst (bindE (send_two_vecs sid tag ?um ?vm) (\<lambda>_. returnE (?um, ?vm, up, vp)) ?w1)
            = Inl StructError"
      using s by (rule fst_bindE_Inl)
    ultimately show ?thesis by simp
  qed
  then have "fst (bindE (bindE (recv_two_vecs sid tag (int n)) (\<lambda>(u_part_pe, v_part_pe).
               bindE (send_two_vecs sid tag ?um ?vm) (\<lambda>_.
               returnE (?um, ?vm, u_part_pe, v_part_pe)))) k w) = Inl StructError" for k :: "int list \<times> int list \<times> int list \<times> int list \<Rightarrow> ('a world_scheme, int) io"
    by (rule fst_bindE_Inl)
  then show ?thesis
    unfolding dta_cross_def len(1) Let_def
    by (simp add: c1 c2)
qed

section \<open>Dealer: one pairing\<close>

lemma sent_share_events [simp]:
  "sent (Conn s) (share_events s dim sid a b c) = share_bytes dim sid a b c"
  by (simp add: share_events_def share_bytes_def)

lemma send_share_run:
  assumes "in_i64 sid" "list_all in_i64 a" "list_all in_i64 b" "in_i64 c"
  shows "finallyE (send_share s dim sid a b c) (shutdown_close s) w
           = (Inr (), w\<lparr>trace := trace w @ share_events s dim sid a b c\<rparr>)"
  using assms
  by (simp add: finallyE_def send_share_def shutdown_close_def bindE_def close_def log_event_def
        pack_i64_eq pack_u8_eq pack_u32_eq sendall_Inr send_i64s_run share_events_def
        OP_RESPONSE_def)

lemma rand_vec_run:
  "\<exists>xs. rand_vec dim w = (Inr xs, w\<lparr>drawn := drawn w + nat dim\<rparr>) \<and> length xs = nat dim
        \<and> (\<forall>x\<in>set xs. 1 \<le> x \<and> x \<le> 1024)"
  unfolding rand_vec_def by (rule rand_list_run)

lemma small_in_i64: "\<forall>x\<in>set xs. 1 \<le> x \<and> x \<le> 1024 \<Longrightarrow> list_all in_i64 xs"
  by (auto simp: list_all_iff in_i64_def)

lemma dot_bound:
  assumes "length xs = n" "length ys = n"
    and "\<forall>x\<in>set xs. 0 \<le> x \<and> x \<le> 2048" "\<forall>y\<in>set ys. 0 \<le> y \<and> y \<le> 2048"
  shows "0 \<le> dot xs ys \<and> dot xs ys \<le> int n * 4194304"
proof -
  have e: "0 \<le> xs ! i * ys ! i \<and> xs ! i * ys ! i \<le> 4194304" if "i < n" for i
  proof -
    have x: "0 \<le> xs ! i" "xs ! i \<le> 2048" using assms(1,3) that by (auto simp: all_set_conv_all_nth)
    have y: "0 \<le> ys ! i" "ys ! i \<le> 2048" using assms(2,4) that by (auto simp: all_set_conv_all_nth)
    have "xs ! i * ys ! i \<le> 2048 * 2048" using x y by (intro mult_mono) simp_all
    then show ?thesis using x y by simp
  qed
  have "(\<Sum>i<n. xs ! i * ys ! i) \<le> of_nat (card {..<n}) * 4194304"
    using e by (intro sum_bounded_above) simp
  moreover have "0 \<le> (\<Sum>i<n. xs ! i * ys ! i)" using e by (intro sum_nonneg) simp
  ultimately show ?thesis by (simp add: dot_sum [OF assms(1,2)])
qed

lemma vadd_small:
  assumes "length xs = n" "length ys = n"
    and "\<forall>x\<in>set xs. 1 \<le> x \<and> x \<le> 1024" "\<forall>y\<in>set ys. 1 \<le> y \<and> y \<le> 1024"
  shows "\<forall>z\<in>set (vadd xs ys). 0 \<le> z \<and> z \<le> 2048"
proof -
  have "0 \<le> vadd xs ys ! i \<and> vadd xs ys ! i \<le> 2048" if "i < n" for i
  proof -
    have "1 \<le> xs ! i \<and> xs ! i \<le> 1024" using assms(1,3) that by (auto simp: all_set_conv_all_nth)
    moreover have "1 \<le> ys ! i \<and> ys ! i \<le> 1024" using assms(2,4) that by (auto simp: all_set_conv_all_nth)
    ultimately show ?thesis using that assms(1,2) by simp
  qed
  then show ?thesis using assms(1,2) by (simp add: all_set_conv_all_nth)
qed

lemma critical_region_pair:
  assumes "waiting w dim = Some [peer]"
  shows "critical_region dim conn w = (Inr (Some peer), w\<lparr>waiting := (waiting w)(dim := None)\<rparr>)"
  using assms
  by (simp add: critical_region_def bindE_def waiting_getitem_def dq_popleft_def waiting_pop_def
        returnE_def)

lemma critical_region_queue:
  assumes "waiting w dim = None \<or> waiting w dim = Some []"
  shows "critical_region dim conn w = (Inr None, w\<lparr>waiting := (waiting w)(dim \<mapsto> [conn])\<rparr>)"
  using assms
  by (auto simp: critical_region_def bindE_def waiting_getitem_def dq_append_def returnE_def)


lemma in_i64_between: "- 9223372036854775808 \<le> x \<Longrightarrow> x \<le> 9223372036854775807 \<Longrightarrow> in_i64 x"
  by (simp add: in_i64_def)

lemma handle_one_pairs:
  fixes w :: dealer
  assumes inb: "inbound w (Conn conn) = enc_u8 OP_REQUEST @ enc_u32 dim @ rest"
    and dim: "1 \<le> dim" "dim < 4294967296"
    and wt: "waiting w dim = Some [peer]"
  shows "\<exists>a0 a1 b0 b1 c0 sid.
           handle_one conn w
             = (Inr (),
                w\<lparr>trace := trace w @ share_events peer dim sid a0 b0 c0
                       @ share_events conn dim sid a1 b1 (dot (vadd a0 a1) (vadd b0 b1) - c0),
                  inbound := (inbound w)(Conn conn := rest),
                  drawn := drawn w + (4 * nat dim + 2),
                  waiting := (waiting w)(dim := None)\<rparr>)
         \<and> length a0 = nat dim \<and> length a1 = nat dim \<and> length b0 = nat dim \<and> length b1 = nat dim
         \<and> (\<forall>x\<in>set (a0 @ a1 @ b0 @ b1). 1 \<le> x \<and> x \<le> 1024)
         \<and> 1 \<le> c0 \<and> c0 \<le> 1024 \<and> 0 \<le> sid \<and> sid < 9223372036854775808
         \<and> in_i64 (dot (vadd a0 a1) (vadd b0 b1) - c0)"
proof -
  let ?n = "nat dim"
  let ?w0 = "w\<lparr>inbound := (inbound w)(Conn conn := enc_u32 dim @ rest)\<rparr>"
  let ?w1 = "w\<lparr>inbound := (inbound w)(Conn conn := rest)\<rparr>"
  let ?w2 = "?w1\<lparr>waiting := (waiting w)(dim := None)\<rparr>"
  let ?w3 = "?w2\<lparr>drawn := drawn w + ?n\<rparr>"
  let ?w4 = "?w2\<lparr>drawn := drawn w + ?n + ?n\<rparr>"
  let ?w5 = "?w2\<lparr>drawn := drawn w + ?n + ?n + ?n\<rparr>"
  let ?w6 = "?w2\<lparr>drawn := drawn w + ?n + ?n + ?n + ?n\<rparr>"
  let ?w7 = "?w2\<lparr>drawn := drawn w + ?n + ?n + ?n + ?n + 1\<rparr>"
  let ?w8 = "?w2\<lparr>drawn := drawn w + ?n + ?n + ?n + ?n + 1 + 1\<rparr>"
  have d: "dim mod 4294967296 = dim" "dim \<noteq> 0" using dim by simp_all
  have r1: "read_u8 (Conn conn) w = (Inr OP_REQUEST, ?w0)"
    using inb read_u8_run [of w "Conn conn" OP_REQUEST] by (simp add: OP_REQUEST_def)
  have r2: "read_u32 (Conn conn) ?w0 = (Inr dim, ?w1)"
    using read_u32_run [of ?w0 "Conn conn" dim] d by simp
  have "critical_region dim conn ?w1 = (Inr (Some peer), ?w1\<lparr>waiting := (waiting ?w1)(dim := None)\<rparr>)"
    by (rule critical_region_pair) (simp add: wt)
  then have r3: "critical_region dim conn ?w1 = (Inr (Some peer), ?w2)" by simp
  obtain a0 where "rand_vec dim ?w2 = (Inr a0, ?w2\<lparr>drawn := drawn ?w2 + ?n\<rparr>)"
      and la0: "length a0 = ?n" and ra0: "\<forall>x\<in>set a0. 1 \<le> x \<and> x \<le> 1024"
    using rand_vec_run [of dim ?w2] by blast
  then have a0: "rand_vec dim ?w2 = (Inr a0, ?w3)" by simp
  obtain a1 where "rand_vec dim ?w3 = (Inr a1, ?w3\<lparr>drawn := drawn ?w3 + ?n\<rparr>)"
      and la1: "length a1 = ?n" and ra1: "\<forall>x\<in>set a1. 1 \<le> x \<and> x \<le> 1024"
    using rand_vec_run [of dim ?w3] by blast
  then have a1: "rand_vec dim ?w3 = (Inr a1, ?w4)" by simp
  obtain b0 where "rand_vec dim ?w4 = (Inr b0, ?w4\<lparr>drawn := drawn ?w4 + ?n\<rparr>)"
      and lb0: "length b0 = ?n" and rb0: "\<forall>x\<in>set b0. 1 \<le> x \<and> x \<le> 1024"
    using rand_vec_run [of dim ?w4] by blast
  then have b0: "rand_vec dim ?w4 = (Inr b0, ?w5)" by simp
  obtain b1 where "rand_vec dim ?w5 = (Inr b1, ?w5\<lparr>drawn := drawn ?w5 + ?n\<rparr>)"
      and lb1: "length b1 = ?n" and rb1: "\<forall>x\<in>set b1. 1 \<le> x \<and> x \<le> 1024"
    using rand_vec_run [of dim ?w5] by blast
  then have b1: "rand_vec dim ?w5 = (Inr b1, ?w6)" by simp
  let ?rnd = "1 + int (tape w (drawn w + ?n + ?n + ?n + ?n) mod 1024)"
  let ?sid = "int (tape w (drawn w + ?n + ?n + ?n + ?n + 1) mod 9223372036854775808)"
  let ?prod = "dot (vadd a0 a1) (vadd b0 b1)"
  have c0: "rand_elem ?w6 = (Inr ?rnd, ?w7)"
    by (simp add: rand_elem_def randint_def)
  have sd: "getrandbits 63 ?w7 = (Inr ?sid, ?w8)"
    by (simp add: getrandbits_def)
  have rc0: "1 \<le> ?rnd \<and> ?rnd \<le> 1024"
  proof -
    have "tape w (drawn w + ?n + ?n + ?n + ?n) mod 1024 < 1024" by simp
    then show ?thesis by linarith
  qed
  have rsid: "0 \<le> ?sid \<and> ?sid < 9223372036854775808"
  proof -
    have "tape w (drawn w + ?n + ?n + ?n + ?n + 1) mod 9223372036854775808 < 9223372036854775808"
      by simp
    then show ?thesis by linarith
  qed
  have cb: "0 \<le> ?prod \<and> ?prod \<le> int ?n * 4194304"
  proof (rule dot_bound [where n = ?n])
    show "length (vadd a0 a1) = ?n" by (simp add: la0 la1)
    show "length (vadd b0 b1) = ?n" by (simp add: lb0 lb1)
    show "\<forall>x\<in>set (vadd a0 a1). 0 \<le> x \<and> x \<le> 2048"
      using la0 la1 ra0 ra1 by (rule vadd_small)
    show "\<forall>y\<in>set (vadd b0 b1). 0 \<le> y \<and> y \<le> 2048"
      using lb0 lb1 rb0 rb1 by (rule vadd_small)
  qed
  have "int ?n * 4194304 \<le> 4294967296 * 4194304" using dim by simp
  with cb have ub: "?prod \<le> 18014398509481984" by linarith
  have lo: "- 9223372036854775808 \<le> ?prod - ?rnd" using cb rc0 by linarith
  have hi: "?prod - ?rnd \<le> 9223372036854775807" using ub rc0 by linarith
  have rc1: "in_i64 (?prod - ?rnd)" unfolding in_i64_def using lo hi by (rule conjI)
  have in0: "in_i64 ?sid" "in_i64 ?rnd"
  proof -
    from rsid have "- 9223372036854775808 \<le> ?sid" "?sid \<le> 9223372036854775807" by linarith+
    then show "in_i64 ?sid" by (rule in_i64_between)
    from rc0 have "- 9223372036854775808 \<le> ?rnd" "?rnd \<le> 9223372036854775807" by linarith+
    then show "in_i64 ?rnd" by (rule in_i64_between)
  qed
  let ?w9 = "?w8\<lparr>trace := trace w @ share_events peer dim ?sid a0 b0 ?rnd\<rparr>"
  let ?w10 = "?w8\<lparr>trace := trace w @ share_events peer dim ?sid a0 b0 ?rnd @ share_events conn dim ?sid a1 b1 (?prod - ?rnd)\<rparr>"
  have "finallyE (send_share peer dim ?sid a0 b0 ?rnd) (shutdown_close peer) ?w8
          = (Inr (), ?w8\<lparr>trace := trace ?w8 @ share_events peer dim ?sid a0 b0 ?rnd\<rparr>)"
    using in0(1) small_in_i64 [OF ra0] small_in_i64 [OF rb0] in0(2) by (rule send_share_run)
  then have s1: "finallyE (send_share peer dim ?sid a0 b0 ?rnd) (shutdown_close peer) ?w8 = (Inr (), ?w9)"
    by simp
  have "finallyE (send_share conn dim ?sid a1 b1 (?prod - ?rnd)) (shutdown_close conn) ?w9
          = (Inr (), ?w9\<lparr>trace := trace ?w9 @ share_events conn dim ?sid a1 b1 (?prod - ?rnd)\<rparr>)"
    using in0(1) small_in_i64 [OF ra1] small_in_i64 [OF rb1] rc1 by (rule send_share_run)
  then have s2: "finallyE (send_share conn dim ?sid a1 b1 (?prod - ?rnd)) (shutdown_close conn) ?w9
              = (Inr (), ?w10)"
    by simp
  have b: "handle_one conn w = (Inr (), ?w10)"
    unfolding handle_one_def catchE_def
    by (simp add: bindE_def r1 r2 d r3 a0 [simplified] a1 [simplified] b0 [simplified]
          b1 [simplified] c0 [simplified] sd [simplified] Let_def vadd_def [symmetric]
          s1 [simplified] s2 [simplified])
  have run: "handle_one conn w
          = (Inr (),
             w\<lparr>trace := trace w @ share_events peer dim ?sid a0 b0 ?rnd
                    @ share_events conn dim ?sid a1 b1 (?prod - ?rnd),
               inbound := (inbound w)(Conn conn := rest),
               drawn := drawn w + (4 * ?n + 2),
               waiting := (waiting w)(dim := None)\<rparr>)"
    unfolding b by simp
  have "\<forall>x\<in>set (a0 @ a1 @ b0 @ b1). 1 \<le> x \<and> x \<le> 1024" using ra0 ra1 rb0 rb1 by auto
  with run la0 la1 lb0 lb1 rc0 rsid rc1 show ?thesis by blast
qed


subsection \<open>The table invariant\<close>

lemma tblI: "(\<And>w. table_ok w \<Longrightarrow> table_ok (snd (m w))) \<Longrightarrow> tbl m"
  unfolding tbl_def by blast

lemma tblD: "tbl m \<Longrightarrow> table_ok w \<Longrightarrow> table_ok (snd (m w))"
  unfolding tbl_def by blast

lemma table_ok_upd [simp]:
  "table_ok (w\<lparr>trace := t\<rparr>) = table_ok w"
  "table_ok (w\<lparr>inbound := i\<rparr>) = table_ok w"
  "table_ok (w\<lparr>drawn := k\<rparr>) = table_ok w"
  by (simp_all add: table_ok_def)

lemma tbl_returnE: "tbl (returnE x)" by (rule tblI) (simp add: returnE_def)
lemma tbl_raise: "tbl (raise e)" by (rule tblI) (simp add: raise_def)

lemma tbl_bindE:
  assumes "tbl m" "\<And>x. tbl (f x)"
  shows "tbl (bindE m f)"
proof (rule tblI)
  fix w :: dealer
  assume ok: "table_ok w"
  obtain r w1 where m: "m w = (r, w1)" by (cases "m w")
  have ok1: "table_ok w1" using tblD [OF assms(1) ok] m by simp
  show "table_ok (snd (bindE m f w))"
  proof (cases r)
    case (Inl e)
    then show ?thesis using m ok1 by (simp add: bindE_def)
  next
    case (Inr x)
    have "table_ok (snd (f x w1))" using assms(2) ok1 by (rule tblD)
    then show ?thesis using m Inr by (simp add: bindE_def)
  qed
qed

lemma tbl_catchE:
  assumes "tbl m" "\<And>e. tbl (h e)"
  shows "tbl (catchE m h)"
proof (rule tblI)
  fix w :: dealer
  assume ok: "table_ok w"
  obtain r w1 where m: "m w = (r, w1)" by (cases "m w")
  have ok1: "table_ok w1" using tblD [OF assms(1) ok] m by simp
  show "table_ok (snd (catchE m h w))"
  proof (cases r)
    case (Inl e)
    have "table_ok (snd (h e w1))" using assms(2) ok1 by (rule tblD)
    then show ?thesis using m Inl by (simp add: catchE_def)
  next
    case (Inr x)
    then show ?thesis using m ok1 by (simp add: catchE_def)
  qed
qed

lemma tbl_finallyE:
  assumes "tbl m" "tbl c"
  shows "tbl (finallyE m c)"
proof (rule tblI)
  fix w :: dealer
  assume ok: "table_ok w"
  obtain r w1 where m: "m w = (r, w1)" by (cases "m w")
  obtain r2 w2 where c: "c w1 = (r2, w2)" by (cases "c w1")
  have ok1: "table_ok w1" using tblD [OF assms(1) ok] m by simp
  have ok2: "table_ok w2" using tblD [OF assms(2) ok1] c by simp
  show "table_ok (snd (finallyE m c w))"
    using m c ok2 by (cases r2) (simp_all add: finallyE_def)
qed

lemma tbl_if: "tbl a \<Longrightarrow> tbl b \<Longrightarrow> tbl (if c then a else b)" by simp
lemma tbl_liftE: "tbl (liftE r)" by (cases r) (simp_all add: tbl_raise tbl_returnE)
lemma tbl_log_event: "tbl (log_event ev)" by (rule tblI) (simp add: log_event_def)
lemma tbl_close: "tbl (close ch)" by (simp add: close_def tbl_log_event)
lemma tbl_accept: "tbl (accept ch)" by (simp add: accept_def tbl_log_event)
lemma tbl_sendall: "tbl (sendall ch p)"
  unfolding sendall_def by (intro tbl_bindE tbl_liftE tbl_log_event)
lemma tbl_recv_exact: "tbl (recv_exact ch n)" by (rule tblI) (simp add: recv_exact_eq)
lemma tbl_read_u8: "tbl (read_u8 ch)"
  unfolding read_u8_def by (intro tbl_bindE tbl_recv_exact tbl_returnE)
lemma tbl_read_u32: "tbl (read_u32 ch)"
  unfolding read_u32_def by (intro tbl_bindE tbl_recv_exact tbl_returnE)
lemma tbl_send_i64s: "tbl (send_i64s ch vs)"
proof (induction vs)
  case Nil
  show ?case by (simp add: tbl_returnE)
next
  case (Cons v vs)
  then show ?case by (simp add: tbl_bindE tbl_sendall)
qed
lemma tbl_rand_elem: "tbl rand_elem" by (rule tblI) (simp add: rand_elem_def randint_def)
lemma tbl_getrandbits: "tbl (getrandbits k)" by (rule tblI) (simp add: getrandbits_def)
lemma tbl_rand_vec: "tbl (rand_vec d)"
proof -
  have "tbl (rand_list n)" for n
  proof (induction n)
    case 0
    show ?case by (simp add: tbl_returnE)
  next
    case (Suc n)
    then show ?case by (simp add: tbl_bindE tbl_rand_elem tbl_returnE)
  qed
  then show ?thesis by (simp add: rand_vec_def)
qed
lemma tbl_send_share: "tbl (send_share s dim sid a b c)"
  unfolding send_share_def by (intro tbl_bindE tbl_sendall tbl_send_i64s)
lemma tbl_shutdown_close: "tbl (shutdown_close s)"
  unfolding shutdown_close_def by (intro tbl_bindE tbl_log_event tbl_close)

lemma tbl_critical_region: "tbl (critical_region dim conn)"
proof (rule tblI)
  fix w :: dealer
  assume ok: "table_ok w"
  have all: "\<And>d. case waiting w d of None \<Rightarrow> True | Some dq \<Rightarrow> length dq \<le> 1"
    using ok by (simp add: table_ok_def)
  show "table_ok (snd (critical_region dim conn w))"
  proof (cases "waiting w dim")
    case None
    then have "critical_region dim conn w = (Inr None, w\<lparr>waiting := (waiting w)(dim \<mapsto> [conn])\<rparr>)"
      by (intro critical_region_queue) simp
    then show ?thesis using all by (simp add: table_ok_def)
  next
    case (Some dq)
    have l: "length dq \<le> 1" using all [of dim] Some by simp
    show ?thesis
    proof (cases dq)
      case Nil
      then have "critical_region dim conn w = (Inr None, w\<lparr>waiting := (waiting w)(dim \<mapsto> [conn])\<rparr>)"
        using Some by (intro critical_region_queue) simp
      then show ?thesis using all by (simp add: table_ok_def)
    next
      case (Cons p ps)
      then have "dq = [p]" using l by simp
      then have "critical_region dim conn w = (Inr (Some p), w\<lparr>waiting := (waiting w)(dim := None)\<rparr>)"
        using Some by (intro critical_region_pair) simp
      then show ?thesis using all by (simp add: table_ok_def)
    qed
  qed
qed

lemma tbl_handle_one: "tbl (handle_one conn)"
  unfolding handle_one_def Let_def
  by (intro tbl_catchE tbl_bindE tbl_if tbl_read_u8 tbl_read_u32 tbl_close tbl_critical_region
        tbl_rand_vec tbl_rand_elem tbl_getrandbits tbl_finallyE tbl_send_share
        tbl_shutdown_close)
     (simp_all add: tbl_returnE tbl_bindE tbl_rand_vec tbl_rand_elem tbl_getrandbits
        tbl_finallyE tbl_send_share tbl_shutdown_close split: option.split)

lemma tbl_dealer_loop: "tbl (dealer_loop cs)"
proof (induction cs)
  case Nil
  show ?case by (simp add: tbl_returnE)
next
  case (Cons c cs)
  then show ?case by (simp add: tbl_bindE tbl_accept tbl_handle_one)
qed

lemma table_ok_init: "table_ok (dealer_init env tp)"
  by (simp add: table_ok_def dealer_init_def)

section \<open>Dealer: the triple of a pairing and the waiting table\<close>

lemma sent_share_events_other [simp]:
  "s \<noteq> t \<Longrightarrow> sent (Conn t) (share_events s dim sid a b c) = []"
  by (simp add: share_events_def)

text \<open>
  C3. For every dimension \<open>1 \<le> dim < 2 ^ 32\<close> (the dimensions a request frame can carry):
  when a request for \<open>dim\<close> arrives on \<open>conn\<close> while \<open>peer\<close> waits for \<open>dim\<close>, the dealer
  sends the waiting connection the frame of a share \<open>(a0, b0, c0)\<close> and the arriving one the
  frame of a share \<open>(a1, b1, c1)\<close>; both frames carry the same \<open>sid\<close>, with
  \<open>0 \<le> sid < 2 ^ 63\<close>, and the same \<open>dim\<close>, all vectors have length \<open>dim\<close>, every value fits
  the wire format, and \<open>dot (a0 + a1) (b0 + b1) = c0 + c1\<close> exactly.
\<close>

theorem dealer_pair_triple_correct:
  fixes w :: dealer
  assumes "inbound w (Conn conn) = enc_u8 OP_REQUEST @ enc_u32 dim @ rest"
    and "1 \<le> dim" "dim < 4294967296"
    and "waiting w dim = Some [peer]" "peer \<noteq> conn"
  shows "\<exists>sid a0 b0 c0 a1 b1 c1.
           fst (handle_one conn w) = Inr ()
         \<and> sent (Conn peer) (drop (length (trace w)) (trace (snd (handle_one conn w))))
             = share_bytes dim sid a0 b0 c0
         \<and> sent (Conn conn) (drop (length (trace w)) (trace (snd (handle_one conn w))))
             = share_bytes dim sid a1 b1 c1
         \<and> 0 \<le> sid \<and> sid < 9223372036854775808
         \<and> length a0 = nat dim \<and> length b0 = nat dim \<and> length a1 = nat dim \<and> length b1 = nat dim
         \<and> list_all in_i64 (a0 @ b0 @ a1 @ b1) \<and> in_i64 c0 \<and> in_i64 c1
         \<and> dot (vadd a0 a1) (vadd b0 b1) = c0 + c1"
proof -
  obtain a0 a1 b0 b1 c0 sid where
    run: "handle_one conn w
             = (Inr (),
                w\<lparr>trace := trace w @ share_events peer dim sid a0 b0 c0
                       @ share_events conn dim sid a1 b1 (dot (vadd a0 a1) (vadd b0 b1) - c0),
                  inbound := (inbound w)(Conn conn := rest),
                  drawn := drawn w + (4 * nat dim + 2),
                  waiting := (waiting w)(dim := None)\<rparr>)"
    and len: "length a0 = nat dim" "length a1 = nat dim" "length b0 = nat dim" "length b1 = nat dim"
    and small: "\<forall>x\<in>set (a0 @ a1 @ b0 @ b1). 1 \<le> x \<and> x \<le> 1024"
    and c0: "1 \<le> c0" "c0 \<le> 1024" and sid: "0 \<le> sid" "sid < 9223372036854775808"
    and c1: "in_i64 (dot (vadd a0 a1) (vadd b0 b1) - c0)"
    using handle_one_pairs [OF assms(1,2,3,4)] by blast
  let ?c1 = "dot (vadd a0 a1) (vadd b0 b1) - c0"
  have p: "sent (Conn peer) (drop (length (trace w)) (trace (snd (handle_one conn w))))
             = share_bytes dim sid a0 b0 c0"
    using assms(5) by (simp add: run)
  have q: "sent (Conn conn) (drop (length (trace w)) (trace (snd (handle_one conn w))))
             = share_bytes dim sid a1 b1 ?c1"
    using assms(5) by (simp add: run)
  have r: "list_all in_i64 (a0 @ b0 @ a1 @ b1)"
    using small by (intro small_in_i64) auto
  have i0: "in_i64 c0" using c0 by (simp add: in_i64_def)
  have s: "dot (vadd a0 a1) (vadd b0 b1) = c0 + ?c1" by simp
  have f: "fst (handle_one conn w) = Inr ()" by (simp add: run)
  show ?thesis
    using f p q sid len r i0 c1 s by blast
qed

theorem dealer_pair_triple_correct_witness:
  "inbound example_dealer (Conn 1) = enc_u8 OP_REQUEST @ enc_u32 1 @ []
   \<and> (1::int) \<le> 1 \<and> (1::int) < 4294967296
   \<and> waiting example_dealer 1 = Some [0] \<and> (0::nat) \<noteq> 1
   \<and> (\<exists>sid a0 b0 c0 a1 b1 c1.
           fst (handle_one 1 example_dealer) = Inr ()
         \<and> sent (Conn 0) (drop (length (trace example_dealer))
                             (trace (snd (handle_one 1 example_dealer))))
             = share_bytes 1 sid a0 b0 c0
         \<and> sent (Conn 1) (drop (length (trace example_dealer))
                             (trace (snd (handle_one 1 example_dealer))))
             = share_bytes 1 sid a1 b1 c1
         \<and> 0 \<le> sid \<and> sid < 9223372036854775808
         \<and> length a0 = nat 1 \<and> length b0 = nat 1 \<and> length a1 = nat 1 \<and> length b1 = nat 1
         \<and> list_all in_i64 (a0 @ b0 @ a1 @ b1) \<and> in_i64 c0 \<and> in_i64 c1
         \<and> dot (vadd a0 a1) (vadd b0 b1) = c0 + c1)"
proof -
  have h: "inbound example_dealer (Conn 1) = enc_u8 OP_REQUEST @ enc_u32 1 @ []"
    "waiting example_dealer 1 = Some [0]"
    by (simp_all add: example_dealer_def)
  show ?thesis
    using h dealer_pair_triple_correct [OF h(1) _ _ h(2)] by simp
qed

text \<open>
  C7. The waiting table never holds more than one waiting connection for a dimension:
  the invariant holds after every connection the dealer has handled, starting from the
  empty table, and it is kept by the block under the mutex and by \<open>handle_one\<close> from any
  state that satisfies it. When a request for \<open>dim\<close> arrives on \<open>conn\<close> while \<open>peer\<close> waits
  for \<open>dim\<close>, the block under the mutex takes the waiter out and leaves no entry for
  \<open>dim\<close>; after it, \<open>handle_one\<close> sends one share to \<open>peer\<close>, shuts it down and closes it,
  then does the same for \<open>conn\<close>, and the table still has no entry for \<open>dim\<close>.
\<close>

theorem dealer_table_at_most_one_waiter:
  fixes w v :: dealer
  shows "table_ok (snd (dealer_loop cs (dealer_init env tp)))
     \<and> (table_ok v \<longrightarrow> table_ok (snd (critical_region d c v)) \<and> table_ok (snd (handle_one c v)))
     \<and> (inbound w (Conn conn) = enc_u8 OP_REQUEST @ enc_u32 dim @ rest
          \<and> 1 \<le> dim \<and> dim < 4294967296 \<and> waiting w dim = Some [peer] \<longrightarrow>
          critical_region dim conn w = (Inr (Some peer), w\<lparr>waiting := (waiting w)(dim := None)\<rparr>)
          \<and> (\<exists>sid a0 b0 c0 a1 b1 c1.
                fst (handle_one conn w) = Inr ()
              \<and> trace (snd (handle_one conn w))
                  = trace w @ share_events peer dim sid a0 b0 c0 @ share_events conn dim sid a1 b1 c1
              \<and> waiting (snd (handle_one conn w)) = (waiting w)(dim := None)))"
proof (intro conjI impI)
  show "table_ok (snd (dealer_loop cs (dealer_init env tp)))"
    using tbl_dealer_loop table_ok_init by (rule tblD)
next
  assume "table_ok v"
  with tbl_critical_region show "table_ok (snd (critical_region d c v))" by (rule tblD)
next
  assume "table_ok v"
  with tbl_handle_one show "table_ok (snd (handle_one c v))" by (rule tblD)
next
  assume "inbound w (Conn conn) = enc_u8 OP_REQUEST @ enc_u32 dim @ rest
          \<and> 1 \<le> dim \<and> dim < 4294967296 \<and> waiting w dim = Some [peer]"
  then show "critical_region dim conn w = (Inr (Some peer), w\<lparr>waiting := (waiting w)(dim := None)\<rparr>)"
    by (intro critical_region_pair) simp
next
  assume h: "inbound w (Conn conn) = enc_u8 OP_REQUEST @ enc_u32 dim @ rest
          \<and> 1 \<le> dim \<and> dim < 4294967296 \<and> waiting w dim = Some [peer]"
  then have h1: "inbound w (Conn conn) = enc_u8 OP_REQUEST @ enc_u32 dim @ rest"
    and h2: "1 \<le> dim" and h3: "dim < 4294967296" and h4: "waiting w dim = Some [peer]"
    by simp_all
  obtain a0 a1 b0 b1 c0 sid where
    run: "handle_one conn w
             = (Inr (),
                w\<lparr>trace := trace w @ share_events peer dim sid a0 b0 c0
                       @ share_events conn dim sid a1 b1 (dot (vadd a0 a1) (vadd b0 b1) - c0),
                  inbound := (inbound w)(Conn conn := rest),
                  drawn := drawn w + (4 * nat dim + 2),
                  waiting := (waiting w)(dim := None)\<rparr>)"
    using handle_one_pairs [OF h1 h2 h3 h4] by blast
  have "fst (handle_one conn w) = Inr ()"
    and "trace (snd (handle_one conn w))
           = trace w @ share_events peer dim sid a0 b0 c0
               @ share_events conn dim sid a1 b1 (dot (vadd a0 a1) (vadd b0 b1) - c0)"
    and "waiting (snd (handle_one conn w)) = (waiting w)(dim := None)"
    by (simp_all add: run)
  then show "\<exists>sid a0 b0 c0 a1 b1 c1.
                fst (handle_one conn w) = Inr ()
              \<and> trace (snd (handle_one conn w))
                  = trace w @ share_events peer dim sid a0 b0 c0 @ share_events conn dim sid a1 b1 c1
              \<and> waiting (snd (handle_one conn w)) = (waiting w)(dim := None)"
    by blast
qed

theorem dealer_table_at_most_one_waiter_witness:
  "table_ok (snd (dealer_loop [0, 1] (dealer_init (\<lambda>_. []) (\<lambda>k. k))))
   \<and> table_ok example_dealer
   \<and> inbound example_dealer (Conn 1) = enc_u8 OP_REQUEST @ enc_u32 1 @ []
   \<and> (1::int) \<le> 1 \<and> (1::int) < 4294967296 \<and> waiting example_dealer 1 = Some [0]
   \<and> table_ok (snd (critical_region 1 1 example_dealer))
   \<and> table_ok (snd (handle_one 1 example_dealer))
   \<and> critical_region 1 1 example_dealer
        = (Inr (Some 0), example_dealer\<lparr>waiting := (waiting example_dealer)(1 := None)\<rparr>)
   \<and> (\<exists>sid a0 b0 c0 a1 b1 c1.
          fst (handle_one 1 example_dealer) = Inr ()
        \<and> trace (snd (handle_one 1 example_dealer))
            = trace example_dealer @ share_events 0 1 sid a0 b0 c0 @ share_events 1 1 sid a1 b1 c1
        \<and> waiting (snd (handle_one 1 example_dealer)) = (waiting example_dealer)(1 := None))"
proof -
  have h: "inbound example_dealer (Conn 1) = enc_u8 OP_REQUEST @ enc_u32 1 @ []"
    "waiting example_dealer 1 = Some [0]"
    by (simp_all add: example_dealer_def)
  have t: "table_ok example_dealer"
    by (simp add: table_ok_def example_dealer_def)
  have n: "(1::int) \<le> 1" "(1::int) < 4294967296" by simp_all
  show ?thesis
    using h t n dealer_table_at_most_one_waiter
      [where w = example_dealer and v = example_dealer and conn = 1 and dim = 1 and rest = "[]"
         and peer = 0 and d = 1 and c = 1 and cs = "[0, 1]" and env = "\<lambda>_. []"
         and tp = "\<lambda>k. k"]
    by blast
qed

section \<open>Arithmetic and the i64 range\<close>

lemma sent_User_read_events [simp]: "sent User (read_events role rows sid mem e a b) = []"
  by (simp add: read_events_def fetch_events_def residual_events_def)




section \<open>The cross-term: the two outputs\<close>

lemma dot_vops_sum:
  assumes "length p = n" "length q = n" "length r = n"
  shows "dot (vadd (vsub p q) (vneg r)) s = dot (vadd (vneg r) (vsub p q)) s"
    and "dot s (vadd (vsub p q) (vneg r)) = dot s (vadd (vneg r) (vsub p q))"
proof -
  have "vadd (vsub p q) (vneg r) = vadd (vneg r) (vsub p q)"
    using assms by (intro nth_equalityI) simp_all
  then show "dot (vadd (vsub p q) (vneg r)) s = dot (vadd (vneg r) (vsub p q)) s"
    and "dot s (vadd (vsub p q) (vneg r)) = dot s (vadd (vneg r) (vsub p q))" by simp_all
qed

lemma dot_sum_cong:
  assumes "length p = n" "length q = n"
    and "\<And>i. i < n \<Longrightarrow> p ! i = f i" "\<And>i. i < n \<Longrightarrow> q ! i = g i"
  shows "dot p q = (\<Sum>i<n. f i * g i)"
proof -
  have "dot p q = (\<Sum>i<n. p ! i * q ! i)" using assms(1,2) by (rule dot_sum)
  also have "\<dots> = (\<Sum>i<n. f i * g i)"
    by (rule sum.cong) (simp_all add: assms(3,4))
  finally show ?thesis .
qed

lemma cross_pair_sum:
  assumes len: "length x = n" "length y = n" "length aX = n" "length bX = n" "length aY = n"
      "length bY = n"
    and roles: "rX \<noteq> rY"
    and tri: "dot (vadd aX aY) (vadd bX bY) = cX + cY"
  shows "cross_value rX (vadd (vsub x aX) (vneg aY)) (vadd (vneg bX) (vsub y bY)) aX bX cX
         + cross_value rY (vadd (vneg aY) (vsub x aX)) (vadd (vsub y bY) (vneg bX)) aY bY cY
         = dot x y"
proof -
  let ?u = "vadd (vsub x aX) (vneg aY)" and ?v = "vadd (vneg bX) (vsub y bY)"
  let ?u' = "vadd (vneg aY) (vsub x aX)" and ?v' = "vadd (vsub y bY) (vneg bX)"
  have uu: "?u' = ?u" using len by (intro nth_equalityI) simp_all
  have vv: "?v' = ?v" using len by (intro nth_equalityI) simp_all
  have s1: "dot ?u bX = (\<Sum>i<n. (x ! i - aX ! i - aY ! i) * bX ! i)"
    by (rule dot_sum_cong) (simp_all add: len)
  have s2: "dot aX ?v = (\<Sum>i<n. aX ! i * (y ! i - bY ! i - bX ! i))"
    by (rule dot_sum_cong) (simp_all add: len)
  have s3: "dot ?u bY = (\<Sum>i<n. (x ! i - aX ! i - aY ! i) * bY ! i)"
    by (rule dot_sum_cong) (simp_all add: len)
  have s4: "dot aY ?v = (\<Sum>i<n. aY ! i * (y ! i - bY ! i - bX ! i))"
    by (rule dot_sum_cong) (simp_all add: len)
  have s5: "dot ?u ?v = (\<Sum>i<n. (x ! i - aX ! i - aY ! i) * (y ! i - bY ! i - bX ! i))"
    by (rule dot_sum_cong) (simp_all add: len)
  have s6: "cX + cY = (\<Sum>i<n. (aX ! i + aY ! i) * (bX ! i + bY ! i))"
    unfolding tri [symmetric] by (rule dot_sum_cong) (simp_all add: len)
  have s7: "dot x y = (\<Sum>i<n. x ! i * y ! i)"
    using len by (simp add: dot_sum [where n = n])
  have "dot ?u bX + dot aX ?v + dot ?u bY + dot aY ?v + dot ?u ?v + (cX + cY) = dot x y"
    unfolding s1 s2 s3 s4 s5 s6 s7 sum.distrib [symmetric]
    by (rule sum.cong) (simp_all add: algebra_simps)
  then have e: "dot ?u bX + dot aX ?v + cX + (dot ?u bY + dot aY ?v + dot ?u ?v + cY) = dot x y"
    "dot ?u bX + dot aX ?v + dot ?u ?v + cX + (dot ?u bY + dot aY ?v + cY) = dot x y"
    by simp_all
  show ?thesis
    unfolding uu vv using roles e by (cases rX; cases rY) (simp_all add: cross_value_def)
qed





end
